theory Spec2Isabelle
  imports Main "HOL-Library.List_Lexorder" "HOL-Library.AList"
begin

section \<open>The TTS build pipeline of korean-practice-hub\<close>

text \<open>
  A shallow embedding of \<^verbatim>\<open>scripts/build_tts.py\<close> (and of the filename function of
  \<^verbatim>\<open>generate_tts.py\<close>, which is the same function under another name).

  Modelling decisions, all of them about the environment of the script:
  \<^item> A Python \<^verbatim>\<open>str\<close> holding a Korean text is the list of its code points
    (\<open>pystr\<close>); Python compares strings lexicographically by code point, which is the
    order \<^theory_text>\<open>List_Lexorder\<close> puts on \<open>nat list\<close>.
  \<^item> A file name is a \<open>string\<close>. \<^verbatim>\<open>AUDIO_DIR\<close> is flat and holds regular files
    only; a path \<^verbatim>\<open>os.path.join(AUDIO_DIR, name)\<close> is identified with \<open>name\<close>.
    \<^verbatim>\<open>AUDIO_DIR\<close> is an association list (name, content) whose key order is the order
    of \<^verbatim>\<open>os.listdir\<close>; a directory that does not exist yet is the empty list
    (\<^verbatim>\<open>os.makedirs\<close> creates it).
  \<^item> \<^verbatim>\<open>text.encode('utf-8')\<close> is modelled (\<open>encode_utf8\<close>): it raises
    \<^verbatim>\<open>UnicodeEncodeError\<close> on a lone surrogate, which \<^verbatim>\<open>json.load\<close> can deliver. A
    Python \<^verbatim>\<open>str\<close> has no code point above U+10FFFF; the model's lists that have one
    are not texts, and \<open>encode_utf8\<close> rejects them as well.
  \<^item> \<^verbatim>\<open>hashlib.md5(bytes).hexdigest()\<close> is a parameter \<open>md5_hexdigest\<close> on byte
    lists: the hash is not code of this repository.
  \<^item> An entry of the central manifest names a path below \<^verbatim>\<open>CENTRAL_AUDIO\<close>. What is
    there is a \<open>node\<close>: a regular file that can be read, or something that exists
    and that \<^verbatim>\<open>shutil.copy2\<close> cannot copy (a directory, as for the name \<^verbatim>\<open>''\<close>).
  \<^item> \<^verbatim>\<open>print\<close> does not raise: the script sets the encoding of \<^verbatim>\<open>stdout\<close> to
    UTF-8, and every text it prints has passed \<^verbatim>\<open>encode('utf-8')\<close> before.
  \<^item> \<^verbatim>\<open>edge_tts.Communicate(text, VOICE).save(path)\<close> is a parameter \<open>tts_save\<close>:
    \<open>Some audio\<close> when the call writes the audio, \<open>None\<close> when it raises.
  \<^item> The JSON documents are typed: keys the script reads unguarded (\<^verbatim>\<open>s['kr']\<close>) are
    present, keys it guards (\<^verbatim>\<open>if 'formE' in p\<close>, \<^verbatim>\<open>.get(..., [])\<close>) are optional.
  \<^item> Exceptions are values of type \<open>error\<close>; nothing in the script catches one, so the
    first exception ends the run. What a failed run leaves in the audio directory is
    not modelled (synthesis tasks cancelled in flight can leave incomplete files).
\<close>

subsection \<open>Data\<close>

type_synonym pystr = "nat list"

datatype error =
    FileNotFoundError
  | IndexError
  | ManifestReadError
  | UnicodeEncodeError
  | CopyError
  | SynthesisError pystr

datatype content =
    Bytes "nat list"
  | ManifestDoc "(pystr \<times> string) list"

type_synonym directory = "(string \<times> content) list"

text \<open>What a path below \<^verbatim>\<open>CENTRAL_AUDIO\<close> leads to, when \<^verbatim>\<open>os.path.exists\<close> holds.\<close>

datatype node =
    File content
  | Uncopyable

datatype manifest_file =
    Missing
  | Unreadable
  | Parsed "pystr \<Rightarrow> string option"

record place =
  kr :: pystr
  formE :: "pystr option"
  formEseo :: "pystr option"

record verb =
  past :: "pystr option"
  present :: "pystr option"
  future :: "pystr option"

record situation =
  correct :: "pystr option"
  options :: "pystr list"

record vocab_doc =
  action_subjects :: "pystr list"
  action_times :: "pystr list"
  action_places :: "place list"
  action_objects :: "pystr list"
  action_verbs :: "verb list"
  describe_subjects :: "pystr list"
  describe_adjectives :: "pystr list"
  describe_adverbs :: "pystr list"
  flashcards_categories :: "pystr list list"
  intro_topics :: "pystr list"
  intro_nouns :: "pystr list"
  quiz_situations :: "situation list"

text \<open>\<^verbatim>\<open>sentences.json\<close>: chapters, each a list of sentences, each with an optional \<^verbatim>\<open>kr\<close>.\<close>

type_synonym sentences_doc = "pystr option list list"

subsection \<open>Text extraction (\<^verbatim>\<open>extract_all_texts\<close>)\<close>

definition has_jongseong :: "nat \<Rightarrow> bool" where
  "has_jongseong code =
     (if code < 0xAC00 \<or> code > 0xD7AF then False
      else (code - 0xAC00) mod 28 \<noteq> 0)"

text \<open>
  \<^verbatim>\<open>kr + (a if has_jongseong(kr[-1]) else b)\<close>; \<^verbatim>\<open>kr[-1]\<close> raises IndexError on the
  empty string.
\<close>

definition add_particle :: "pystr \<Rightarrow> pystr \<Rightarrow> pystr \<Rightarrow> error + pystr" where
  "add_particle k a b =
     (if k = [] then Inl IndexError
      else Inr (k @ (if has_jongseong (last k) then a else b)))"

text \<open>The particles: U+C744 / U+B97C, U+C774 / U+AC00, U+C774 U+C5D0 U+C694 / U+C608 U+C694.\<close>

definition eul :: pystr where "eul = [0xC744]"
definition reul :: pystr where "reul = [0xB97C]"
definition i_particle :: pystr where "i_particle = [0xC774]"
definition ga_particle :: pystr where "ga_particle = [0xAC00]"
definition ieyo :: pystr where "ieyo = [0xC774, 0xC5D0, 0xC694]"
definition yeyo :: pystr where "yeyo = [0xC608, 0xC694]"

text \<open>\<^verbatim>\<open>for s in xs: texts.add(s['kr'])\<close>\<close>

fun add_each :: "pystr list \<Rightarrow> pystr set \<Rightarrow> pystr set" where
  "add_each [] texts = texts"
| "add_each (s # xs) texts = add_each xs (insert s texts)"

fun add_places :: "place list \<Rightarrow> pystr set \<Rightarrow> pystr set" where
  "add_places [] texts = texts"
| "add_places (p # ps) texts =
     (let t1 = insert (kr p) texts;
          t2 = (case formE p of Some e \<Rightarrow> insert e t1 | None \<Rightarrow> t1);
          t3 = (case formEseo p of Some e \<Rightarrow> insert e t2 | None \<Rightarrow> t2)
      in add_places ps t3)"

text \<open>\<^verbatim>\<open>for o in xs: kr = o['kr']; texts.add(kr); texts.add(kr + (a if ... else b))\<close>\<close>

fun add_with_particle :: "pystr \<Rightarrow> pystr \<Rightarrow> pystr list \<Rightarrow> pystr set \<Rightarrow> error + pystr set" where
  "add_with_particle a b [] texts = Inr texts"
| "add_with_particle a b (k # xs) texts =
     (case add_particle k a b of
        Inl e \<Rightarrow> Inl e
      | Inr p \<Rightarrow> add_with_particle a b xs (insert p (insert k texts)))"

fun add_verbs :: "verb list \<Rightarrow> pystr set \<Rightarrow> pystr set" where
  "add_verbs [] texts = texts"
| "add_verbs (v # vs) texts =
     add_verbs vs
       (fold (\<lambda>tense t. case tense v of Some x \<Rightarrow> insert x t | None \<Rightarrow> t)
          [past, present, future] texts)"

fun add_cards :: "pystr list list \<Rightarrow> pystr set \<Rightarrow> pystr set" where
  "add_cards [] texts = texts"
| "add_cards (cat # cats) texts = add_cards cats (add_each cat texts)"

fun add_situations :: "situation list \<Rightarrow> pystr set \<Rightarrow> pystr set" where
  "add_situations [] texts = texts"
| "add_situations (s # ss) texts =
     (let t1 = (case correct s of Some c \<Rightarrow> insert c texts | None \<Rightarrow> texts)
      in add_situations ss (add_each (options s) t1))"

fun add_sentences :: "pystr option list \<Rightarrow> pystr set \<Rightarrow> pystr set" where
  "add_sentences [] texts = texts"
| "add_sentences (s # ss) texts =
     add_sentences ss (case s of Some k \<Rightarrow> insert k texts | None \<Rightarrow> texts)"

fun add_chapters :: "sentences_doc \<Rightarrow> pystr set \<Rightarrow> pystr set" where
  "add_chapters [] texts = texts"
| "add_chapters (ch # chs) texts = add_chapters chs (add_sentences ch texts)"

text \<open>The body of \<^verbatim>\<open>extract_all_texts\<close> up to the last two lines: the set \<^verbatim>\<open>texts\<close>.\<close>

definition collect_texts :: "vocab_doc \<Rightarrow> sentences_doc option \<Rightarrow> error + pystr set" where
  "collect_texts data sdata =
     (let t1 = add_each (action_subjects data) {};
          t2 = add_each (action_times data) t1;
          t3 = add_places (action_places data) t2
      in case add_with_particle eul reul (action_objects data) t3 of
           Inl e \<Rightarrow> Inl e
         | Inr t4 \<Rightarrow>
             (let t5 = add_verbs (action_verbs data) t4
              in case add_with_particle i_particle ga_particle (describe_subjects data) t5 of
                   Inl e \<Rightarrow> Inl e
                 | Inr t6 \<Rightarrow>
                     (let t7 = add_each (describe_adjectives data) t6;
                          t8 = add_each (describe_adverbs data) t7;
                          t9 = add_cards (flashcards_categories data) t8;
                          t10 = add_each (intro_topics data) t9
                      in case add_with_particle ieyo yeyo (intro_nouns data) t10 of
                           Inl e \<Rightarrow> Inl e
                         | Inr t11 \<Rightarrow>
                             (let t12 = add_situations (quiz_situations data) t11
                              in Inr (case sdata of
                                        Some chapters \<Rightarrow> add_chapters chapters t12
                                      | None \<Rightarrow> t12)))))"

text \<open>
  \<^verbatim>\<open>texts.discard(''); return sorted(texts)\<close>. Opening a missing \<^verbatim>\<open>vocab.json\<close>
  raises; a missing \<^verbatim>\<open>sentences.json\<close> is skipped (\<^verbatim>\<open>os.path.exists\<close>).
\<close>

definition extract_all_texts :: "vocab_doc option \<Rightarrow> sentences_doc option \<Rightarrow> error + pystr list" where
  "extract_all_texts vocab_json sentences_json =
     (case vocab_json of
        None \<Rightarrow> Inl FileNotFoundError
      | Some data \<Rightarrow>
          (case collect_texts data sentences_json of
             Inl e \<Rightarrow> Inl e
           | Inr texts \<Rightarrow> Inr (sorted_list_of_set (texts - {[]}))))"

subsection \<open>The filename deriver (\<^verbatim>\<open>repo_filename\<close>, \<^verbatim>\<open>text_to_filename\<close>)\<close>

definition digit_char :: "nat \<Rightarrow> char" where
  "digit_char d = ''0123456789'' ! d"

text \<open>The decimal digits of a natural number, most significant first.\<close>

fun decimal :: "nat \<Rightarrow> string" where
  "decimal n =
     (if n < 10 then [digit_char n]
      else decimal (n div 10) @ [digit_char (n mod 10)])"

declare decimal.simps [simp del]

definition zero_fill :: "nat \<Rightarrow> string \<Rightarrow> string" where
  "zero_fill w s = replicate (w - length s) CHR ''0'' @ s"

text \<open>
  Python's \<^verbatim>\<open>f'{index:04d}'\<close>: minimum width 4, padded with zeros after the sign; a
  longer number is not cut.
\<close>

definition format_04d :: "int \<Rightarrow> string" where
  "format_04d i =
     (if i < 0 then CHR ''-'' # zero_fill 3 (decimal (nat (- i)))
      else zero_fill 4 (decimal (nat i)))"

text \<open>
  \<^verbatim>\<open>str.encode('utf-8')\<close> with the default error handler \<^verbatim>\<open>strict\<close>: one to four
  bytes for a code point, \<^verbatim>\<open>UnicodeEncodeError\<close> for a surrogate (U+D800 to U+DFFF).
\<close>

definition utf8_char :: "nat \<Rightarrow> nat list option" where
  "utf8_char c =
     (if c < 0x80 then Some [c]
      else if c < 0x800 then Some [0xC0 + c div 0x40, 0x80 + c mod 0x40]
      else if 0xD800 \<le> c \<and> c \<le> 0xDFFF then None
      else if c < 0x10000 then
        Some [0xE0 + c div 0x1000, 0x80 + c div 0x40 mod 0x40, 0x80 + c mod 0x40]
      else if c < 0x110000 then
        Some [0xF0 + c div 0x40000, 0x80 + c div 0x1000 mod 0x40,
              0x80 + c div 0x40 mod 0x40, 0x80 + c mod 0x40]
      else None)"

fun encode_utf8 :: "pystr \<Rightarrow> error + nat list" where
  "encode_utf8 [] = Inr []"
| "encode_utf8 (c # cs) =
     (case utf8_char c of
        None \<Rightarrow> Inl UnicodeEncodeError
      | Some b \<Rightarrow>
          (case encode_utf8 cs of
             Inl err \<Rightarrow> Inl err
           | Inr bs \<Rightarrow> Inr (b @ bs)))"

text \<open>
  \<^verbatim>\<open>h = hashlib.md5(text.encode('utf-8')).hexdigest()[:6];
  return f'{index:04d}_{h}.mp3'\<close>
\<close>

definition repo_filename :: "(nat list \<Rightarrow> string) \<Rightarrow> pystr \<Rightarrow> int \<Rightarrow> error + string" where
  "repo_filename md5_hexdigest t index =
     (case encode_utf8 t of
        Inl err \<Rightarrow> Inl err
      | Inr b \<Rightarrow>
          (let h = take 6 (md5_hexdigest b)
           in Inr (format_04d index @ ''_'' @ h @ ''.mp3'')))"

definition text_to_filename :: "(nat list \<Rightarrow> string) \<Rightarrow> pystr \<Rightarrow> int \<Rightarrow> error + string" where
  "text_to_filename md5_hexdigest t index =
     (case encode_utf8 t of
        Inl err \<Rightarrow> Inl err
      | Inr b \<Rightarrow>
          (let h = take 6 (md5_hexdigest b)
           in Inr (format_04d index @ ''_'' @ h @ ''.mp3'')))"

text \<open>Vocabulary for the statements about file names.\<close>

text \<open>The texts \<^verbatim>\<open>encode('utf-8')\<close> accepts: every code point is a Unicode scalar value.\<close>

definition is_scalar :: "nat \<Rightarrow> bool" where
  "is_scalar c = (c < 0xD800 \<or> (0xDFFF < c \<and> c < 0x110000))"

definition encodable :: "pystr \<Rightarrow> bool" where
  "encodable t = list_all is_scalar t"

definition is_digit :: "char \<Rightarrow> bool" where
  "is_digit c = (c \<in> set ''0123456789'')"

definition is_hex :: "char \<Rightarrow> bool" where
  "is_hex c = (c \<in> set ''0123456789abcdef'')"

definition digit_val :: "char \<Rightarrow> nat" where
  "digit_val c = of_char c - 48"

definition decimal_val :: "string \<Rightarrow> nat" where
  "decimal_val s = foldl (\<lambda>a c. 10 * a + digit_val c) 0 s"

definition parse_int :: "string \<Rightarrow> int" where
  "parse_int s =
     (if s \<noteq> [] \<and> hd s = CHR ''-'' then - int (decimal_val (tl s))
      else int (decimal_val s))"

text \<open>\<^verbatim>\<open>s.endswith(suffix)\<close>\<close>

definition endswith :: "string \<Rightarrow> string \<Rightarrow> bool" where
  "endswith s suffix =
     (length suffix \<le> length s \<and> drop (length s - length suffix) s = suffix)"

text \<open>
  The MD5 digests of the texts used in the examples below (the empty string, and the
  three texts of the end-to-end scenario: U+C548 U+B155, U+C0AC U+B791 U+D574 U+C694,
  U+D559 U+AD50), as \<^verbatim>\<open>hashlib\<close> computes them from the UTF-8 bytes of the texts. Only
  these four texts occur in the examples; \<open>md5_sample\<close> maps every other byte list to
  the digest of the empty one.
\<close>

definition annyeong :: pystr where "annyeong = [0xC548, 0xB155]"
definition saranghaeyo :: pystr where "saranghaeyo = [0xC0AC, 0xB791, 0xD574, 0xC694]"
definition hakgyo :: pystr where "hakgyo = [0xD559, 0xAD50]"

definition md5_sample :: "nat list \<Rightarrow> string" where
  "md5_sample b =
     (if b = [0xEC, 0x95, 0x88, 0xEB, 0x85, 0x95] then ''ef1c511c9efb9259438f098aff940740''
      else if b = [0xEC, 0x82, 0xAC, 0xEB, 0x9E, 0x91, 0xED, 0x95, 0xB4, 0xEC, 0x9A, 0x94]
        then ''137a01c274f82354b5670ddf6c34e083''
      else if b = [0xED, 0x95, 0x99, 0xEA, 0xB5, 0x90] then ''09b9db30e2d13cdd45c57cf9ebf7d951''
      else ''d41d8cd98f00b204e9800998ecf8427e'')"

subsection \<open>The pipeline (\<^verbatim>\<open>main\<close>)\<close>

text \<open>
  What \<^verbatim>\<open>main\<close> reads and does not change: the two JSON inputs, the central manifest
  file, the central audio directory, the two external functions, and the order in which
  the concurrent synthesis tasks complete.
\<close>

record env =
  vocab_json :: "vocab_doc option"
  sentences_json :: "sentences_doc option"
  central_manifest_file :: manifest_file
  central_audio :: "string \<Rightarrow> node option"
  md5_hexdigest :: "nat list \<Rightarrow> string"
  tts_save :: "pystr \<Rightarrow> content option"
  completion_order :: "nat list"

text \<open>
  \<^verbatim>\<open>central_manifest = {}; if os.path.exists(CENTRAL_MANIFEST): ... json.load(f)\<close>.
  A file that exists but cannot be opened or parsed raises in \<^verbatim>\<open>open\<close> or
  \<^verbatim>\<open>json.load\<close>.
\<close>

definition load_central_manifest :: "manifest_file \<Rightarrow> error + (pystr \<Rightarrow> string option)" where
  "load_central_manifest f =
     (case f of
        Missing \<Rightarrow> Inr Map.empty
      | Unreadable \<Rightarrow> Inl ManifestReadError
      | Parsed m \<Rightarrow> Inr m)"

text \<open>The local variables of \<^verbatim>\<open>main\<close> that the loop updates, and the audio directory.\<close>

record build_state =
  manifest :: "(pystr \<times> string) list"
  to_generate :: "(pystr \<times> string) list"
  copied :: nat
  audio_dir :: directory

text \<open>
  One iteration of \<^verbatim>\<open>for i, text in enumerate(texts)\<close>. The Python dict
  \<^verbatim>\<open>manifest\<close> keeps insertion order, as \<open>AList.update\<close> does. The iteration raises
  when \<^verbatim>\<open>repo_filename\<close> does, and when \<^verbatim>\<open>os.path.exists(central_path)\<close> holds for
  something \<^verbatim>\<open>shutil.copy2\<close> cannot copy.
\<close>

definition loop_body ::
  "(nat list \<Rightarrow> string) \<Rightarrow> (pystr \<Rightarrow> string option) \<Rightarrow> (string \<Rightarrow> node option) \<Rightarrow>
   nat \<times> pystr \<Rightarrow> build_state \<Rightarrow> error + build_state" where
  "loop_body h central_manifest central it st =
     (let i = fst it; t = snd it
      in case repo_filename h t (int i) of
           Inl err \<Rightarrow> Inl err
         | Inr fname \<Rightarrow>
             (let st1 = st\<lparr>manifest := AList.update t fname (manifest st)\<rparr>;
                  miss = st1\<lparr>to_generate := to_generate st1 @ [(t, fname)]\<rparr>
              in case central_manifest t of
                   Some central_fname \<Rightarrow>
                     (case central central_fname of
                        Some (File audio) \<Rightarrow>
                          Inr (st1\<lparr>audio_dir := AList.update fname audio (audio_dir st1),
                                   copied := copied st1 + 1\<rparr>)
                      | Some Uncopyable \<Rightarrow> Inl CopyError
                      | None \<Rightarrow> Inr miss)
                 | None \<Rightarrow> Inr miss))"

fun main_loop ::
  "(nat list \<Rightarrow> string) \<Rightarrow> (pystr \<Rightarrow> string option) \<Rightarrow> (string \<Rightarrow> node option) \<Rightarrow>
   (nat \<times> pystr) list \<Rightarrow> build_state \<Rightarrow> error + build_state" where
  "main_loop h central_manifest central [] st = Inr st"
| "main_loop h central_manifest central (it # its) st =
     (case loop_body h central_manifest central it st of
        Inl err \<Rightarrow> Inl err
      | Inr st' \<Rightarrow> main_loop h central_manifest central its st')"

text \<open>
  \<^verbatim>\<open>generate_tts(text, filepath, sem, counter)\<close>, without the semaphore (modelled
  below): the call to \<^verbatim>\<open>tts.save\<close> writes the file or raises.
\<close>

definition generate_tts ::
  "(pystr \<Rightarrow> content option) \<Rightarrow> pystr \<times> string \<Rightarrow> directory \<Rightarrow> error + directory" where
  "generate_tts tts task d =
     (case tts (fst task) of
        None \<Rightarrow> Inl (SynthesisError (fst task))
      | Some audio \<Rightarrow> Inr (AList.update (snd task) audio d))"

text \<open>
  \<^verbatim>\<open>await asyncio.gather(*tasks)\<close>: the tasks complete in some order; the first
  exception is raised in \<^verbatim>\<open>main\<close> at once (\<^verbatim>\<open>return_exceptions\<close> is not set), which
  ends the run. \<open>gather\<close> takes the tasks in their order of completion.
\<close>

fun gather ::
  "(pystr \<Rightarrow> content option) \<Rightarrow> (pystr \<times> string) list \<Rightarrow> directory \<Rightarrow> error + directory" where
  "gather tts [] d = Inr d"
| "gather tts (task # tasks) d =
     (case generate_tts tts task d of
        Inl e \<Rightarrow> Inl e
      | Inr d' \<Rightarrow> gather tts tasks d')"

text \<open>
  The order of completion is the environment's choice. Every list of numbers denotes
  one: the tasks at the positions it names (first occurrences, in range) complete in
  that order, the tasks it does not name complete after them in list order. Every
  permutation of the tasks is \<open>arrange order tasks\<close> for some \<open>order\<close>.
\<close>

definition arrange :: "nat list \<Rightarrow> 'a list \<Rightarrow> 'a list" where
  "arrange order tasks =
     (let named = remdups (filter (\<lambda>i. i < length tasks) order);
          others = filter (\<lambda>i. i \<notin> set named) [0..<length tasks]
      in map (\<lambda>i. tasks ! i) (named @ others))"

text \<open>
  \<^verbatim>\<open>with open(mpath, 'w') as f: json.dump(manifest, f, ...)\<close>. Opening for writing
  creates the file or truncates it to length 0; the document is written after that.
  \<open>write_manifest_states\<close> lists the states of the directory an observer can see,
  \<open>write_manifest\<close> is the last of them.
\<close>

definition mpath :: string where
  "mpath = ''manifest.json''"

definition write_manifest_states :: "(pystr \<times> string) list \<Rightarrow> directory \<Rightarrow> directory list" where
  "write_manifest_states m d =
     [AList.update mpath (Bytes []) d,
      AList.update mpath (ManifestDoc m) (AList.update mpath (Bytes []) d)]"

definition write_manifest :: "(pystr \<times> string) list \<Rightarrow> directory \<Rightarrow> directory" where
  "write_manifest m d = last (write_manifest_states m d)"

text \<open>
  \<^verbatim>\<open>valid = set(manifest.values()); for f in os.listdir(AUDIO_DIR): if
  f.endswith('.mp3') and f not in valid: os.remove(...); removed += 1\<close>
\<close>

definition is_orphan :: "(pystr \<times> string) list \<Rightarrow> string \<Rightarrow> bool" where
  "is_orphan m f = (endswith f ''.mp3'' \<and> f \<notin> set (map snd m))"

fun sweep :: "(pystr \<times> string) list \<Rightarrow> string list \<Rightarrow> directory \<times> nat \<Rightarrow> directory \<times> nat" where
  "sweep m [] acc = acc"
| "sweep m (f # fs) (d, removed) =
     (if is_orphan m f then sweep m fs (AList.delete f d, removed + 1)
      else sweep m fs (d, removed))"

definition clean_orphans :: "(pystr \<times> string) list \<Rightarrow> directory \<Rightarrow> directory \<times> nat" where
  "clean_orphans m d = sweep m (map fst d) (d, 0)"

text \<open>What a run that reaches the end leaves behind and reports.\<close>

record report =
  final_dir :: directory
  final_manifest :: "(pystr \<times> string) list"
  generated :: "(pystr \<times> string) list"
  n_texts :: nat
  n_copied :: nat
  n_removed :: nat

definition init_state :: "directory \<Rightarrow> build_state" where
  "init_state d = \<lparr>manifest = [], to_generate = [], copied = 0, audio_dir = d\<rparr>"

text \<open>
  \<^verbatim>\<open>main\<close>. An exception ends the run where it is raised: the result is the error.
  With an empty \<^verbatim>\<open>to_generate\<close> the script skips \<^verbatim>\<open>gather\<close>, which is what \<open>gather\<close>
  does with no task.
\<close>

definition main :: "env \<Rightarrow> directory \<Rightarrow> error + report" where
  "main e d =
     (case extract_all_texts (vocab_json e) (sentences_json e) of
        Inl err \<Rightarrow> Inl err
      | Inr texts \<Rightarrow>
          (case load_central_manifest (central_manifest_file e) of
             Inl err \<Rightarrow> Inl err
           | Inr central_manifest \<Rightarrow>
               (case main_loop (md5_hexdigest e) central_manifest (central_audio e)
                       (enumerate 0 texts) (init_state d) of
                  Inl err \<Rightarrow> Inl err
                | Inr st \<Rightarrow>
                    (case gather (tts_save e) (arrange (completion_order e) (to_generate st))
                            (audio_dir st) of
                       Inl err \<Rightarrow> Inl err
                     | Inr d1 \<Rightarrow>
                         (let d2 = write_manifest (manifest st) d1;
                              swept = clean_orphans (manifest st) d2
                          in Inr \<lparr>final_dir = fst swept,
                                  final_manifest = manifest st,
                                  generated = to_generate st,
                                  n_texts = length texts,
                                  n_copied = copied st,
                                  n_removed = snd swept\<rparr>)))))"

subsection \<open>The admission gate (\<^verbatim>\<open>asyncio.Semaphore(5)\<close>)\<close>

text \<open>
  The tasks of \<^verbatim>\<open>gather\<close> interleave at their \<^verbatim>\<open>await\<close> points. Each task is the
  body of \<^verbatim>\<open>generate_tts\<close>:
  \<^verbatim>\<open>async with sem: ...; await tts.save(filepath); ...\<close>.
  Entering \<^verbatim>\<open>async with sem\<close> acquires the semaphore: the task proceeds only when
  the counter is positive, and decrements it. Leaving the block, by reaching its end or
  by an exception of \<^verbatim>\<open>tts.save\<close>, releases it: the counter is incremented. The call
  of the synthesis service happens inside the block only.

  The state of the gate is the counter and the phase of every task; an event is one
  task acquiring, or one task leaving the block (\<open>True\<close>: the file was saved, \<open>False\<close>:
  \<^verbatim>\<open>tts.save\<close> raised). An event that cannot happen in a state (a task that is not
  waiting acquires, the counter is 0, a task that is not in the block leaves it) has
  no successor. Any scheduling of the tasks, also after a failure, is a list of events.
\<close>

datatype phase = Waiting | InFlight | Finished bool

record gate =
  sem :: nat
  phases :: "phase list"

datatype event = Acquire nat | Leave nat bool

definition semaphore_limit :: nat where
  "semaphore_limit = 5"

definition gate_init :: "nat \<Rightarrow> gate" where
  "gate_init n = \<lparr>sem = semaphore_limit, phases = replicate n Waiting\<rparr>"

fun gate_step :: "event \<Rightarrow> gate \<Rightarrow> gate option" where
  "gate_step (Acquire i) g =
     (if i < length (phases g) \<and> phases g ! i = Waiting \<and> 0 < sem g
      then Some (g\<lparr>sem := sem g - 1, phases := (phases g)[i := InFlight]\<rparr>)
      else None)"
| "gate_step (Leave i ok) g =
     (if i < length (phases g) \<and> phases g ! i = InFlight
      then Some (g\<lparr>sem := sem g + 1, phases := (phases g)[i := Finished ok]\<rparr>)
      else None)"

fun gate_run :: "event list \<Rightarrow> gate \<Rightarrow> gate option" where
  "gate_run [] g = Some g"
| "gate_run (ev # evs) g =
     (case gate_step ev g of
        None \<Rightarrow> None
      | Some g' \<Rightarrow> gate_run evs g')"

definition in_flight :: "gate \<Rightarrow> nat" where
  "in_flight g = length (filter (\<lambda>p. p = InFlight) (phases g))"

subsection \<open>Vocabulary for the statements\<close>

text \<open>
  What the two tests of the loop body find for a text: the central manifest names a
  path and \<^verbatim>\<open>os.path.exists\<close> holds for it below the central audio directory.
\<close>

definition cached :: "(pystr \<Rightarrow> string option) \<Rightarrow> (string \<Rightarrow> node option) \<Rightarrow> pystr \<Rightarrow> node option" where
  "cached central_manifest central t =
     (case central_manifest t of
        None \<Rightarrow> None
      | Some central_fname \<Rightarrow> central central_fname)"

text \<open>
  The file name the loop gives to the text at position \<open>i\<close> (for a text that
  \<^verbatim>\<open>repo_filename\<close> rejects, the empty name: the loop never uses it).
\<close>

definition entry :: "(nat list \<Rightarrow> string) \<Rightarrow> nat \<times> pystr \<Rightarrow> string" where
  "entry h it =
     (case repo_filename h (snd it) (int (fst it)) of
        Inl err \<Rightarrow> []
      | Inr fname \<Rightarrow> fname)"

text \<open>The state of \<^verbatim>\<open>main\<close> after its loop, or the exception the loop raises.\<close>

definition plan ::
  "env \<Rightarrow> directory \<Rightarrow> pystr list \<Rightarrow> (pystr \<Rightarrow> string option) \<Rightarrow> error + build_state" where
  "plan e d texts central_manifest =
     main_loop (md5_hexdigest e) central_manifest (central_audio e)
       (enumerate 0 texts) (init_state d)"

text \<open>The names of the audio files of a directory: those ending in \<^verbatim>\<open>.mp3\<close>.\<close>

definition artifacts :: "directory \<Rightarrow> string set" where
  "artifacts d = {f \<in> fst ` set d. endswith f ''.mp3''}"

text \<open>
  Every state of the directory during the manifest write shows, at the manifest path,
  either what was there before or the whole new document.
\<close>

definition manifest_write_atomic :: "(pystr \<times> string) list \<Rightarrow> directory \<Rightarrow> bool" where
  "manifest_write_atomic m d =
     list_all (\<lambda>s. map_of s mpath = map_of d mpath \<or> map_of s mpath = Some (ManifestDoc m))
       (write_manifest_states m d)"

subsection \<open>The end-to-end scenario\<close>

text \<open>
  Three required texts (one of them listed twice, and an empty string beside them).
  The central manifest names a file for two of them, and the central store has only
  the first of these files. The audio directory holds a stale audio file, a text file
  and an old manifest. The second synthesis task completes before the first.
\<close>

definition vocab_scn :: vocab_doc where
  "vocab_scn =
     \<lparr>action_subjects = [], action_times = [], action_places = [], action_objects = [],
      action_verbs = [], describe_subjects = [], describe_adjectives = [],
      describe_adverbs = [],
      flashcards_categories = [[annyeong, saranghaeyo, [], hakgyo, annyeong]],
      intro_topics = [], intro_nouns = [], quiz_situations = []\<rparr>"

definition central_manifest_scn :: "pystr \<Rightarrow> string option" where
  "central_manifest_scn = [annyeong \<mapsto> ''a1.mp3'', hakgyo \<mapsto> ''gone.mp3'']"

definition central_audio_scn :: "string \<Rightarrow> node option" where
  "central_audio_scn = [''a1.mp3'' \<mapsto> File (Bytes [1])]"

definition tts_echo :: "pystr \<Rightarrow> content option" where
  "tts_echo t = Some (Bytes t)"

definition tts_failing :: "pystr \<Rightarrow> content option" where
  "tts_failing t = (if t = hakgyo then None else Some (Bytes t))"

definition dir_scn :: directory where
  "dir_scn =
     [(''old.mp3'', Bytes [9]), (''notes.txt'', Bytes [7]), (''manifest.json'', ManifestDoc [])]"

definition env_scn :: env where
  "env_scn =
     \<lparr>vocab_json = Some vocab_scn, sentences_json = None,
      central_manifest_file = Parsed central_manifest_scn,
      central_audio = central_audio_scn,
      md5_hexdigest = md5_sample, tts_save = tts_echo, completion_order = [1, 0]\<rparr>"

definition manifest_scn :: "(pystr \<times> string) list" where
  "manifest_scn =
     [(saranghaeyo, ''0000_137a01.mp3''), (annyeong, ''0001_ef1c51.mp3''),
      (hakgyo, ''0002_09b9db.mp3'')]"

definition result_scn :: report where
  "result_scn =
     \<lparr>final_dir =
        [(''notes.txt'', Bytes [7]), (''manifest.json'', ManifestDoc manifest_scn),
         (''0001_ef1c51.mp3'', Bytes [1]), (''0002_09b9db.mp3'', Bytes hakgyo),
         (''0000_137a01.mp3'', Bytes saranghaeyo)],
      final_manifest = manifest_scn,
      generated = [(saranghaeyo, ''0000_137a01.mp3''), (hakgyo, ''0002_09b9db.mp3'')],
      n_texts = 3, n_copied = 1, n_removed = 1\<rparr>"

text \<open>The same run when the central manifest file does not exist.\<close>

definition result_missing_scn :: report where
  "result_missing_scn =
     \<lparr>final_dir =
        [(''notes.txt'', Bytes [7]), (''manifest.json'', ManifestDoc manifest_scn),
         (''0001_ef1c51.mp3'', Bytes annyeong), (''0000_137a01.mp3'', Bytes saranghaeyo),
         (''0002_09b9db.mp3'', Bytes hakgyo)],
      final_manifest = manifest_scn,
      generated = manifest_scn,
      n_texts = 3, n_copied = 0, n_removed = 1\<rparr>"

section \<open>Properties\<close>

subsection \<open>Facts about the filename deriver\<close>

lemma decimal_small: "n < 10 \<Longrightarrow> decimal n = [digit_char n]"
  by (simp add: decimal.simps)

lemma decimal_big: "10 \<le> n \<Longrightarrow> decimal n = decimal (n div 10) @ [digit_char (n mod 10)]"
  by (simp add: decimal.simps)

lemma replicate_eval:
  "replicate 1 x = [x]" "replicate 2 x = [x, x]" "replicate 3 x = [x, x, x]"
  by (simp_all add: numeral_2_eq_2 numeral_3_eq_3)

lemmas format_eval =
  format_04d_def zero_fill_def decimal_small decimal_big digit_char_def replicate_eval

lemma lt10_cases:
  "(d::nat) < 10 \<Longrightarrow>
   d = 0 \<or> d = 1 \<or> d = 2 \<or> d = 3 \<or> d = 4 \<or> d = 5 \<or> d = 6 \<or> d = 7 \<or> d = 8 \<or> d = 9"
  by arith

lemma digit_char_is_digit: "d < 10 \<Longrightarrow> is_digit (digit_char d)"
  using lt10_cases [of d] by (auto simp: is_digit_def digit_char_def)

lemma digit_val_digit_char: "d < 10 \<Longrightarrow> digit_val (digit_char d) = d"
  using lt10_cases [of d] by (auto simp: digit_val_def digit_char_def)

lemma decimal_digits: "\<forall>c \<in> set (decimal n). is_digit c"
proof (induction n rule: decimal.induct)
  case (1 n)
  show ?case
  proof (cases "n < 10")
    case True
    then show ?thesis by (simp add: decimal_small digit_char_is_digit)
  next
    case False
    then have "\<forall>c \<in> set (decimal (n div 10)). is_digit c" using 1 by simp
    with False show ?thesis by (simp add: decimal_big digit_char_is_digit)
  qed
qed

lemma decimal_val_append: "decimal_val (s @ [c]) = 10 * decimal_val s + digit_val c"
  by (simp add: decimal_val_def)

lemma decimal_val_decimal: "decimal_val (decimal n) = n"
proof (induction n rule: decimal.induct)
  case (1 n)
  show ?case
  proof (cases "n < 10")
    case True
    then show ?thesis by (simp add: decimal_small decimal_val_def digit_val_digit_char)
  next
    case False
    then have "decimal_val (decimal (n div 10)) = n div 10" using 1 by simp
    with False show ?thesis
      by (simp add: decimal_big decimal_val_append digit_val_digit_char)
  qed
qed

lemma decimal_val_zeros: "decimal_val (replicate k CHR ''0'' @ s) = decimal_val s"
proof -
  have "foldl (\<lambda>a c. 10 * a + digit_val c) 0 (replicate k CHR ''0'') = 0"
    by (induction k) (simp_all add: digit_val_def)
  then show ?thesis by (simp add: decimal_val_def)
qed

lemma decimal_val_zero_fill: "decimal_val (zero_fill w (decimal n)) = n"
  by (simp add: zero_fill_def decimal_val_zeros decimal_val_decimal)

lemma decimal_nonempty: "decimal n \<noteq> []"
  by (cases "n < 10") (simp_all add: decimal_small decimal_big)

lemma length_decimal_le4: "n < 10000 \<Longrightarrow> length (decimal n) \<le> 4"
proof -
  assume n: "n < 10000"
  have l1: "\<And>m. m < 10 \<Longrightarrow> length (decimal m) = 1" by (simp add: decimal_small)
  have l2: "\<And>m. m < 100 \<Longrightarrow> length (decimal m) \<le> 2"
  proof -
    fix m :: nat assume "m < 100"
    then show "length (decimal m) \<le> 2"
      by (cases "m < 10") (simp_all add: decimal_small decimal_big l1)
  qed
  have l3: "\<And>m. m < 1000 \<Longrightarrow> length (decimal m) \<le> 3"
  proof -
    fix m :: nat assume m: "m < 1000"
    show "length (decimal m) \<le> 3"
    proof (cases "m < 10")
      case True then show ?thesis by (simp add: decimal_small)
    next
      case False
      moreover from m have "m div 10 < 100" by simp
      ultimately show ?thesis using l2 [of "m div 10"] by (simp add: decimal_big)
    qed
  qed
  show ?thesis
  proof (cases "n < 10")
    case True then show ?thesis by (simp add: decimal_small)
  next
    case False
    moreover from n have "n div 10 < 1000" by simp
    ultimately show ?thesis using l3 [of "n div 10"] by (simp add: decimal_big)
  qed
qed

lemma length_decimal_ge5: "10000 \<le> n \<Longrightarrow> 5 \<le> length (decimal n)"
proof -
  assume n: "10000 \<le> n"
  have step: "length (decimal m) = Suc (length (decimal (m div 10)))" if "10 \<le> m" for m
    using that by (simp add: decimal_big)
  have g1: "1 \<le> length (decimal m)" for m
    using decimal_nonempty [of m] by (cases "decimal m") simp_all
  have g2: "2 \<le> length (decimal m)" if "10 \<le> m" for m
    using step [OF that] g1 [of "m div 10"] by simp
  have g3: "3 \<le> length (decimal m)" if "100 \<le> m" for m
  proof -
    from that have "10 \<le> m" "10 \<le> m div 10" by simp_all
    then show ?thesis using step [of m] g2 [of "m div 10"] by simp
  qed
  have g4: "4 \<le> length (decimal m)" if "1000 \<le> m" for m
  proof -
    from that have "10 \<le> m" "100 \<le> m div 10" by simp_all
    then show ?thesis using step [of m] g3 [of "m div 10"] by simp
  qed
  from n have "10 \<le> n" "1000 \<le> n div 10" by simp_all
  then show ?thesis using step [of n] g4 [of "n div 10"] by simp
qed

lemma zero_fill_digits:
  "\<forall>c \<in> set s. is_digit c \<Longrightarrow> \<forall>c \<in> set (zero_fill w s). is_digit c"
proof -
  have z: "is_digit CHR ''0''" by (simp add: is_digit_def)
  assume "\<forall>c \<in> set s. is_digit c"
  with z show ?thesis by (auto simp: zero_fill_def)
qed

lemma length_zero_fill: "length (zero_fill w s) = max w (length s)"
  by (simp add: zero_fill_def)

lemma parse_int_format_04d: "parse_int (format_04d i) = i"
proof (cases "i < 0")
  case True
  then show ?thesis by (simp add: format_04d_def parse_int_def decimal_val_zero_fill)
next
  case False
  have "zero_fill 4 (decimal (nat i)) \<noteq> []"
    by (simp add: zero_fill_def decimal_nonempty)
  moreover have "hd (zero_fill 4 (decimal (nat i))) \<noteq> CHR ''-''"
  proof -
    have "hd (zero_fill 4 (decimal (nat i))) \<in> set (zero_fill 4 (decimal (nat i)))"
      using calculation by simp
    then have "is_digit (hd (zero_fill 4 (decimal (nat i))))"
      using zero_fill_digits [OF decimal_digits] by blast
    moreover have "\<not> is_digit CHR ''-''" by (simp add: is_digit_def)
    ultimately show ?thesis by metis
  qed
  ultimately have "parse_int (zero_fill 4 (decimal (nat i))) =
      int (decimal_val (zero_fill 4 (decimal (nat i))))"
    by (simp add: parse_int_def)
  with False show ?thesis by (simp add: format_04d_def decimal_val_zero_fill)
qed

lemma takeWhile_upto: "c \<notin> set xs \<Longrightarrow> takeWhile (\<lambda>x. x \<noteq> c) (xs @ c # r) = xs"
  by (induction xs) auto

lemma format_04d_no_underscore: "CHR ''_'' \<notin> set (format_04d i)"
proof -
  have d: "is_digit c" if "c \<in> set (zero_fill w (decimal n))" for c w n
    using that zero_fill_digits [OF decimal_digits] by blast
  have u: "\<not> is_digit CHR ''_''"
    by (simp add: is_digit_def)
  have "CHR ''_'' \<notin> set (zero_fill w (decimal n))" for w n
    using d u by blast
  then show ?thesis by (simp add: format_04d_def)
qed

lemma repo_filename_Inr:
  "repo_filename h t i = Inr f \<longleftrightarrow>
     (\<exists>b. encode_utf8 t = Inr b \<and> f = format_04d i @ ''_'' @ take 6 (h b) @ ''.mp3'')"
  by (auto simp: repo_filename_def split: sum.splits)

lemma index_part:
  "repo_filename h t i = Inr f \<Longrightarrow> takeWhile (\<lambda>c. c \<noteq> CHR ''_'') f = format_04d i"
  using takeWhile_upto [OF format_04d_no_underscore] by (auto simp: repo_filename_Inr)

lemma repo_filename_inj_index:
  "repo_filename h t i = Inr f \<Longrightarrow> repo_filename h u j = Inr f \<Longrightarrow> i = j"
proof -
  assume "repo_filename h t i = Inr f" "repo_filename h u j = Inr f"
  then have "format_04d i = format_04d j" by (metis index_part)
  then show "i = j" by (metis parse_int_format_04d)
qed

lemma endswith_append: "endswith (xs @ s) s"
  by (simp add: endswith_def)

lemma repo_filename_mp3: "repo_filename h t i = Inr f \<Longrightarrow> endswith f ''.mp3''"
proof -
  assume "repo_filename h t i = Inr f"
  then obtain b where "f = (format_04d i @ ''_'' @ take 6 (h b)) @ ''.mp3''"
    by (auto simp: repo_filename_Inr)
  then show ?thesis by (metis endswith_append)
qed

lemma mpath_not_mp3: "\<not> endswith mpath ''.mp3''"
  by (simp add: endswith_def mpath_def)

lemma repo_filename_not_mpath: "repo_filename h t i = Inr f \<Longrightarrow> f \<noteq> mpath"
  using repo_filename_mp3 [of h t i f] mpath_not_mp3 by metis

subsection \<open>Facts about the encoding\<close>

lemma utf8_char_None_iff: "utf8_char c = None \<longleftrightarrow> \<not> is_scalar c"
  unfolding utf8_char_def is_scalar_def by (simp split: if_splits) arith

lemma encode_utf8_Inl: "encode_utf8 t = Inl err \<Longrightarrow> err = UnicodeEncodeError"
  by (induction t arbitrary: err) (auto split: option.splits sum.splits)

lemma encode_utf8_Inr_iff: "(\<exists>b. encode_utf8 t = Inr b) \<longleftrightarrow> encodable t"
proof (induction t)
  case Nil
  show ?case by (simp add: encodable_def)
next
  case (Cons c cs)
  show ?case
  proof (cases "utf8_char c")
    case None
    then have "\<not> is_scalar c" by (simp add: utf8_char_None_iff)
    with None show ?thesis by (simp add: encodable_def)
  next
    case (Some b)
    then have "is_scalar c" using utf8_char_None_iff [of c] by simp
    with Some Cons show ?thesis by (auto simp: encodable_def split: sum.splits)
  qed
qed

lemma encode_utf8_fails: "\<not> encodable t \<Longrightarrow> encode_utf8 t = Inl UnicodeEncodeError"
proof -
  assume "\<not> encodable t"
  then have "\<not> (\<exists>b. encode_utf8 t = Inr b)" by (simp add: encode_utf8_Inr_iff)
  then obtain err where "encode_utf8 t = Inl err" by (cases "encode_utf8 t") auto
  with encode_utf8_Inl show ?thesis by blast
qed

lemma repo_filename_Inl_iff:
  "repo_filename h t i = Inl err \<longleftrightarrow> \<not> encodable t \<and> err = UnicodeEncodeError"
proof
  assume l: "repo_filename h t i = Inl err"
  then have e: "encode_utf8 t = Inl err"
    by (auto simp: repo_filename_def split: sum.splits)
  then have "\<not> (\<exists>b. encode_utf8 t = Inr b)" by simp
  with e show "\<not> encodable t \<and> err = UnicodeEncodeError"
    using encode_utf8_Inl encode_utf8_Inr_iff by blast
next
  assume "\<not> encodable t \<and> err = UnicodeEncodeError"
  then show "repo_filename h t i = Inl err"
    by (simp add: repo_filename_def encode_utf8_fails)
qed

lemma encode_scn:
  "encode_utf8 annyeong = Inr [0xEC, 0x95, 0x88, 0xEB, 0x85, 0x95]"
  "encode_utf8 saranghaeyo =
     Inr [0xEC, 0x82, 0xAC, 0xEB, 0x9E, 0x91, 0xED, 0x95, 0xB4, 0xEC, 0x9A, 0x94]"
  "encode_utf8 hakgyo = Inr [0xED, 0x95, 0x99, 0xEA, 0xB5, 0x90]"
  by (simp_all add: annyeong_def saranghaeyo_def hakgyo_def utf8_char_def)

text \<open>
  C6 (amended). The filename deriver is a function of (text, index);
  \<^verbatim>\<open>text_to_filename\<close> is the same function. For a text that can be encoded in UTF-8
  (no lone surrogate) the identifier is the index formatted by \<^verbatim>\<open>04d\<close>, an
  underscore, the first 6 characters of the MD5 hex digest of the encoded text, and
  \<^verbatim>\<open>.mp3\<close>; for any other text the function raises \<^verbatim>\<open>UnicodeEncodeError\<close>. The index
  can be read back from the identifier, so identifiers with distinct indices are
  distinct, whatever the texts. For an index \<open>i \<ge> 0\<close> the index part consists of decimal
  digits, is zero-padded to width 4 and never cut: it has exactly 4 digits if and only
  if \<open>i < 10000\<close>. When the digest is 32 hex characters (as MD5's is), the fingerprint is
  6 hex characters.
\<close>

theorem repo_filename_form:
  "text_to_filename h t i = repo_filename h t i
   \<and> (encodable t \<longrightarrow>
        (\<exists>b. encode_utf8 t = Inr b
           \<and> repo_filename h t i = Inr (format_04d i @ ''_'' @ take 6 (h b) @ ''.mp3'')))
   \<and> (\<not> encodable t \<longrightarrow> repo_filename h t i = Inl UnicodeEncodeError)
   \<and> parse_int (format_04d i) = i
   \<and> (0 \<le> i \<longrightarrow>
        (\<forall>c \<in> set (format_04d i). is_digit c)
        \<and> length (format_04d i) = max 4 (length (decimal (nat i)))
        \<and> (i < 10000 \<longleftrightarrow> length (format_04d i) = 4))
   \<and> (\<forall>b. length (h b) = 32 \<and> (\<forall>c \<in> set (h b). is_hex c) \<longrightarrow>
        length (take 6 (h b)) = 6 \<and> (\<forall>c \<in> set (take 6 (h b)). is_hex c))
   \<and> (i \<noteq> j \<and> repo_filename h t i = Inr f \<longrightarrow> repo_filename h u j \<noteq> Inr f)"
proof -
  have same: "text_to_filename h t i = repo_filename h t i"
    by (simp add: repo_filename_def text_to_filename_def)
  have form: "\<exists>b. encode_utf8 t = Inr b
      \<and> repo_filename h t i = Inr (format_04d i @ ''_'' @ take 6 (h b) @ ''.mp3'')"
    if "encodable t"
  proof -
    from that obtain b where "encode_utf8 t = Inr b" using encode_utf8_Inr_iff by blast
    then show ?thesis by (simp add: repo_filename_def)
  qed
  have fails: "repo_filename h t i = Inl UnicodeEncodeError" if "\<not> encodable t"
    using that by (simp add: repo_filename_Inl_iff)
  have idx: "(\<forall>c \<in> set (format_04d i). is_digit c)
        \<and> length (format_04d i) = max 4 (length (decimal (nat i)))
        \<and> (i < 10000 \<longleftrightarrow> length (format_04d i) = 4)" if nonneg: "0 \<le> i"
  proof -
    from nonneg have f: "format_04d i = zero_fill 4 (decimal (nat i))"
      by (simp add: format_04d_def)
    have digits: "\<forall>c \<in> set (format_04d i). is_digit c"
      unfolding f by (rule zero_fill_digits [OF decimal_digits])
    have len: "length (format_04d i) = max 4 (length (decimal (nat i)))"
      unfolding f by (rule length_zero_fill)
    have "length (format_04d i) = 4" if "i < 10000"
    proof -
      from that nonneg have "nat i < 10000" by simp
      from length_decimal_le4 [OF this] len show ?thesis by simp
    qed
    moreover have "i < 10000" if "length (format_04d i) = 4"
    proof (rule ccontr)
      assume "\<not> i < 10000"
      then have "10000 \<le> nat i" by simp
      from length_decimal_ge5 [OF this] len that show False by simp
    qed
    ultimately show ?thesis using digits len by blast
  qed
  have hex: "length (take 6 (h b)) = 6 \<and> (\<forall>c \<in> set (take 6 (h b)). is_hex c)"
    if "length (h b) = 32 \<and> (\<forall>c \<in> set (h b). is_hex c)" for b
  proof -
    from that have "length (take 6 (h b)) = 6" by simp
    moreover have "\<forall>c \<in> set (take 6 (h b)). is_hex c"
      using that by (meson in_set_takeD)
    ultimately show ?thesis by simp
  qed
  have inj: "repo_filename h u j \<noteq> Inr f" if "i \<noteq> j \<and> repo_filename h t i = Inr f"
    using that repo_filename_inj_index by blast
  from same form fails parse_int_format_04d [of i] idx hex inj show ?thesis by blast
qed

theorem repo_filename_form_witness:
  "repo_filename md5_sample annyeong 7 = Inr ''0007_ef1c51.mp3''
   \<and> text_to_filename md5_sample annyeong 7 = Inr ''0007_ef1c51.mp3''
   \<and> repo_filename md5_sample [0xD800] 7 = Inl UnicodeEncodeError
   \<and> length (format_04d 7) = 4
   \<and> length (take 6 (md5_sample [0xEC, 0x95, 0x88, 0xEB, 0x85, 0x95])) = 6
   \<and> repo_filename md5_sample hakgyo 8 \<noteq> Inr ''0007_ef1c51.mp3''"
proof -
  let ?b = "[0xEC, 0x95, 0x88, 0xEB, 0x85, 0x95] :: nat list"
  have enc: "encodable annyeong"
    by (simp add: encodable_def is_scalar_def annyeong_def)
  have hex: "length (md5_sample ?b) = 32 \<and> (\<forall>c \<in> set (md5_sample ?b). is_hex c)"
    by (simp add: md5_sample_def is_hex_def)
  have val: "format_04d 7 @ ''_'' @ take 6 (md5_sample ?b) @ ''.mp3'' = ''0007_ef1c51.mp3''"
    by (simp add: md5_sample_def format_eval)
  note T = repo_filename_form [of md5_sample annyeong 7 8 "''0007_ef1c51.mp3''" hakgyo]
  from T enc obtain b where b: "encode_utf8 annyeong = Inr b"
    and r: "repo_filename md5_sample annyeong 7 =
      Inr (format_04d 7 @ ''_'' @ take 6 (md5_sample b) @ ''.mp3'')"
    by blast
  from b have "b = ?b" by (simp add: encode_scn)
  with r val have a: "repo_filename md5_sample annyeong 7 = Inr ''0007_ef1c51.mp3''"
    by (simp only:)
  from T have "text_to_filename md5_sample annyeong 7 = repo_filename md5_sample annyeong 7"
    by (rule conjunct1)
  with a have b': "text_to_filename md5_sample annyeong 7 = Inr ''0007_ef1c51.mp3''"
    by (simp only:)
  have "\<not> encodable [0xD800]"
    by (simp add: encodable_def is_scalar_def)
  with repo_filename_form [of md5_sample "[0xD800]" 7]
  have s: "repo_filename md5_sample [0xD800] 7 = Inl UnicodeEncodeError" by blast
  have "(0::int) \<le> 7" "(7::int) < 10000" by simp_all
  with T have c: "length (format_04d 7) = 4" by blast
  from T hex have d: "length (take 6 (md5_sample ?b)) = 6" by blast
  have "(7::int) \<noteq> 8" by simp
  with T a have e: "repo_filename md5_sample hakgyo 8 \<noteq> Inr ''0007_ef1c51.mp3''"
    by blast
  from a b' s c d e show ?thesis by blast
qed

text \<open>
  The claim as stated (always a 4-digit index) fails from index 10000 on:
  \<^verbatim>\<open>f'{10000:04d}'\<close> is \<^verbatim>\<open>'10000'\<close>.
\<close>

theorem repo_filename_five_digits:
  "repo_filename md5_sample annyeong 10000 = Inr ''10000_ef1c51.mp3''
   \<and> length (format_04d 10000) = 5"
  by (simp add: repo_filename_def encode_scn md5_sample_def format_eval)

subsection \<open>Facts about the admission gate\<close>

lemma count_list_update:
  "i < length xs \<Longrightarrow>
   length (filter P (xs[i := y])) + (if P (xs ! i) then 1 else 0) =
   length (filter P xs) + (if P y then 1 else 0)"
proof (induction xs arbitrary: i)
  case Nil
  then show ?case by simp
next
  case (Cons x xs)
  then show ?case by (cases i) auto
qed

lemma gate_step_invariant:
  assumes "gate_step ev g = Some g'"
  shows "in_flight g' + sem g' = in_flight g + sem g"
proof (cases ev)
  case (Acquire i)
  with assms have i: "i < length (phases g)" "phases g ! i = Waiting" "0 < sem g"
    and g': "g' = g\<lparr>sem := sem g - 1, phases := (phases g)[i := InFlight]\<rparr>"
    by (auto split: if_splits)
  from count_list_update [OF i(1), of "\<lambda>p. p = InFlight" InFlight] i(2)
  have "in_flight g' = in_flight g + 1" by (simp add: in_flight_def g')
  with i(3) g' show ?thesis by simp
next
  case (Leave i ok)
  with assms have i: "i < length (phases g)" "phases g ! i = InFlight"
    and g': "g' = g\<lparr>sem := sem g + 1, phases := (phases g)[i := Finished ok]\<rparr>"
    by (auto split: if_splits)
  from count_list_update [OF i(1), of "\<lambda>p. p = InFlight" "Finished ok"] i(2)
  have "in_flight g' + 1 = in_flight g" by (simp add: in_flight_def g')
  with g' show ?thesis by simp
qed

lemma gate_run_invariant:
  "gate_run evs g = Some g' \<Longrightarrow> in_flight g' + sem g' = in_flight g + sem g"
proof (induction evs arbitrary: g)
  case Nil
  then show ?case by simp
next
  case (Cons ev evs)
  then obtain g1 where s: "gate_step ev g = Some g1" and r: "gate_run evs g1 = Some g'"
    by (auto split: option.splits)
  from Cons.IH [OF r] gate_step_invariant [OF s] show ?case by simp
qed

lemma gate_init_6:
  "gate_init 6 = \<lparr>sem = 5, phases = [Waiting, Waiting, Waiting, Waiting, Waiting, Waiting]\<rparr>"
  by (simp add: gate_init_def semaphore_limit_def numeral_eq_Suc)

lemma gate_step_Leave:
  "i < length (phases g) \<Longrightarrow> phases g ! i = InFlight \<Longrightarrow>
   gate_step (Leave i ok) g = Some (g\<lparr>sem := sem g + 1, phases := (phases g)[i := Finished ok]\<rparr>)"
  by simp

lemma gate_step_Acquire:
  "i < length (phases g) \<Longrightarrow> phases g ! i = Waiting \<Longrightarrow> 0 < sem g \<Longrightarrow>
   gate_step (Acquire i) g = Some (g\<lparr>sem := sem g - 1, phases := (phases g)[i := InFlight]\<rparr>)"
  by simp

text \<open>
  C4. The number of synthesis calls in flight never exceeds 5. In every state the gate
  reaches from its initial state (any number of tasks, any interleaving of acquisitions
  and completions), the tasks inside the \<^verbatim>\<open>async with sem\<close> block and the free slots add
  up to 5; so at most 5 calls are in flight. With 5 in flight no task is admitted; with
  fewer, any waiting task is. A task in flight can always leave the block, whether
  \<^verbatim>\<open>tts.save\<close> returned or raised, and leaving gives its slot back: one more free
  slot, one call less in flight.
\<close>

theorem gate_bound:
  assumes "gate_run evs (gate_init n) = Some g"
  shows "in_flight g + sem g = 5 \<and> in_flight g \<le> 5
       \<and> (in_flight g = 5 \<longrightarrow> gate_step (Acquire i) g = None)
       \<and> (in_flight g < 5 \<and> i < length (phases g) \<and> phases g ! i = Waiting \<longrightarrow>
            gate_step (Acquire i) g =
              Some (g\<lparr>sem := sem g - 1, phases := (phases g)[i := InFlight]\<rparr>))
       \<and> (i < length (phases g) \<and> phases g ! i = InFlight \<longrightarrow>
            (\<forall>ok. gate_step (Leave i ok) g =
                     Some (g\<lparr>sem := sem g + 1, phases := (phases g)[i := Finished ok]\<rparr>)))
       \<and> (\<forall>ok g'. gate_step (Leave i ok) g = Some g' \<longrightarrow>
             sem g' = sem g + 1 \<and> in_flight g' + 1 = in_flight g)"
proof -
  have "in_flight (gate_init n) + sem (gate_init n) = 5"
    by (simp add: in_flight_def gate_init_def semaphore_limit_def)
  with gate_run_invariant [OF assms] have inv: "in_flight g + sem g = 5"
    by simp
  have leave: "sem g' = sem g + 1 \<and> in_flight g' + 1 = in_flight g"
    if "gate_step (Leave i ok) g = Some g'" for ok g'
  proof -
    from that have "sem g' = sem g + 1" by (auto split: if_splits)
    with gate_step_invariant [OF that] show ?thesis by simp
  qed
  have can_leave: "\<forall>ok. gate_step (Leave i ok) g =
      Some (g\<lparr>sem := sem g + 1, phases := (phases g)[i := Finished ok]\<rparr>)"
    if "i < length (phases g) \<and> phases g ! i = InFlight"
    using that gate_step_Leave by blast
  have admit: "gate_step (Acquire i) g =
      Some (g\<lparr>sem := sem g - 1, phases := (phases g)[i := InFlight]\<rparr>)"
    if "in_flight g < 5 \<and> i < length (phases g) \<and> phases g ! i = Waiting"
  proof -
    from that inv have "0 < sem g" by simp
    with that show ?thesis using gate_step_Acquire by blast
  qed
  from inv have full: "in_flight g = 5 \<longrightarrow> gate_step (Acquire i) g = None" by simp
  from inv have "in_flight g \<le> 5" by simp
  with inv full admit can_leave leave show ?thesis by blast
qed

theorem gate_bound_witness:
  "gate_run [Acquire 0, Acquire 1, Acquire 2, Acquire 3, Acquire 4] (gate_init 6)
     = Some \<lparr>sem = 0, phases = [InFlight, InFlight, InFlight, InFlight, InFlight, Waiting]\<rparr>
   \<and> in_flight \<lparr>sem = 0, phases = [InFlight, InFlight, InFlight, InFlight, InFlight, Waiting]\<rparr> = 5
   \<and> gate_step (Acquire 5)
        \<lparr>sem = 0, phases = [InFlight, InFlight, InFlight, InFlight, InFlight, Waiting]\<rparr> = None
   \<and> gate_step (Leave 2 False)
        \<lparr>sem = 0, phases = [InFlight, InFlight, InFlight, InFlight, InFlight, Waiting]\<rparr>
     = Some \<lparr>sem = 1, phases = [InFlight, InFlight, Finished False, InFlight, InFlight, Waiting]\<rparr>
   \<and> gate_step (Leave 2 True)
        \<lparr>sem = 0, phases = [InFlight, InFlight, InFlight, InFlight, InFlight, Waiting]\<rparr>
     = Some \<lparr>sem = 1, phases = [InFlight, InFlight, Finished True, InFlight, InFlight, Waiting]\<rparr>
   \<and> gate_step (Acquire 5)
        \<lparr>sem = 1, phases = [InFlight, InFlight, Finished False, InFlight, InFlight, Waiting]\<rparr>
     = Some \<lparr>sem = 0, phases = [InFlight, InFlight, Finished False, InFlight, InFlight, InFlight]\<rparr>"
proof -
  let ?g = "\<lparr>sem = 0, phases = [InFlight, InFlight, InFlight, InFlight, InFlight, Waiting]\<rparr>"
  let ?g1 = "\<lparr>sem = 1, phases = [InFlight, InFlight, Finished False, InFlight, InFlight, Waiting]\<rparr>"
  have run: "gate_run [Acquire 0, Acquire 1, Acquire 2, Acquire 3, Acquire 4] (gate_init 6) = Some ?g"
    by (simp add: gate_init_6)
  have run1: "gate_run [Acquire 0, Acquire 1, Acquire 2, Acquire 3, Acquire 4, Leave 2 False]
      (gate_init 6) = Some ?g1"
    by (simp add: gate_init_6)
  note T = gate_bound [OF run, of 5]
  from T have "in_flight ?g + sem ?g = 5" by (rule conjunct1)
  then have five: "in_flight ?g = 5" by simp
  with T have full: "gate_step (Acquire 5) ?g = None" by blast
  note L = gate_bound [OF run, of 2]
  have "2 < length (phases ?g) \<and> phases ?g ! 2 = InFlight" by simp
  with L have leave: "\<forall>ok. gate_step (Leave 2 ok) ?g =
      Some (?g\<lparr>sem := sem ?g + 1, phases := (phases ?g)[2 := Finished ok]\<rparr>)"
    by blast
  have upd: "?g\<lparr>sem := sem ?g + 1, phases := (phases ?g)[2 := Finished ok]\<rparr> =
      \<lparr>sem = 1, phases = [InFlight, InFlight, Finished ok, InFlight, InFlight, Waiting]\<rparr>" for ok
    by simp
  from leave upd have lf: "gate_step (Leave 2 False) ?g = Some ?g1" by (simp only:)
  from leave upd have lt: "gate_step (Leave 2 True) ?g =
      Some \<lparr>sem = 1, phases = [InFlight, InFlight, Finished True, InFlight, InFlight, Waiting]\<rparr>"
    by (simp only:)
  note A = gate_bound [OF run1, of 5]
  from A have "in_flight ?g1 + sem ?g1 = 5" by (rule conjunct1)
  then have "in_flight ?g1 < 5 \<and> 5 < length (phases ?g1) \<and> phases ?g1 ! 5 = Waiting" by simp
  with A have "gate_step (Acquire 5) ?g1 =
      Some (?g1\<lparr>sem := sem ?g1 - 1, phases := (phases ?g1)[5 := InFlight]\<rparr>)"
    by blast
  moreover have "?g1\<lparr>sem := sem ?g1 - 1, phases := (phases ?g1)[5 := InFlight]\<rparr> =
      \<lparr>sem = 0, phases = [InFlight, InFlight, Finished False, InFlight, InFlight, InFlight]\<rparr>"
    by simp
  ultimately have again: "gate_step (Acquire 5) ?g1 =
      Some \<lparr>sem = 0, phases = [InFlight, InFlight, Finished False, InFlight, InFlight, InFlight]\<rparr>"
    by (simp only:)
  from run five full lf lt again show ?thesis by blast
qed

subsection \<open>Facts about the loop of \<^verbatim>\<open>main\<close>\<close>

lemma update_new_key: "k \<notin> fst ` set al \<Longrightarrow> AList.update k v al = al @ [(k, v)]"
  by (induction al) auto

lemma entry_Inr: "repo_filename h (snd it) (int (fst it)) = Inr f \<Longrightarrow> entry h it = f"
  by (simp add: entry_def)

lemma entry_encodable:
  "encodable (snd it) \<Longrightarrow> repo_filename h (snd it) (int (fst it)) = Inr (entry h it)"
proof -
  assume "encodable (snd it)"
  then obtain b where "encode_utf8 (snd it) = Inr b" using encode_utf8_Inr_iff by blast
  then show ?thesis by (simp add: entry_def repo_filename_def)
qed

lemma entry_inj:
  "encodable (snd a) \<Longrightarrow> encodable (snd b) \<Longrightarrow> entry h a = entry h b \<Longrightarrow> fst a = fst b"
proof -
  assume "encodable (snd a)" "encodable (snd b)" and e: "entry h a = entry h b"
  then have "repo_filename h (snd a) (int (fst a)) = Inr (entry h a)"
    "repo_filename h (snd b) (int (fst b)) = Inr (entry h a)"
    by (simp_all add: entry_encodable)
  then have "int (fst a) = int (fst b)" by (rule repo_filename_inj_index)
  then show ?thesis by simp
qed

lemma entry_mp3: "encodable (snd it) \<Longrightarrow> endswith (entry h it) ''.mp3''"
  using entry_encodable repo_filename_mp3 by blast

lemma entry_not_mpath: "encodable (snd it) \<Longrightarrow> entry h it \<noteq> mpath"
  using entry_mp3 mpath_not_mp3 by metis

text \<open>What one iteration that does not raise does.\<close>

lemma loop_body_Inr:
  assumes "loop_body h cm ca it st = Inr st'"
  shows "encodable (snd it)"
    and "cached cm ca (snd it) \<noteq> Some Uncopyable"
    and "manifest st' = AList.update (snd it) (entry h it) (manifest st)"
    and "to_generate st' =
          (if cached cm ca (snd it) = None then to_generate st @ [(snd it, entry h it)]
           else to_generate st)"
    and "copied st' = (if cached cm ca (snd it) = None then copied st else copied st + 1)"
    and "audio_dir st' =
          (case cached cm ca (snd it) of
             Some (File audio) \<Rightarrow> AList.update (entry h it) audio (audio_dir st)
           | _ \<Rightarrow> audio_dir st)"
proof -
  from assms obtain f where f: "repo_filename h (snd it) (int (fst it)) = Inr f"
    by (auto simp: loop_body_def Let_def split: sum.splits)
  then have "\<exists>b. encode_utf8 (snd it) = Inr b" by (auto simp: repo_filename_Inr)
  then show "encodable (snd it)" by (simp add: encode_utf8_Inr_iff)
  from f have e: "entry h it = f" by (rule entry_Inr)
  from assms f e show "cached cm ca (snd it) \<noteq> Some Uncopyable"
    by (auto simp: loop_body_def cached_def Let_def split: option.splits node.splits)
  from assms f e show "manifest st' = AList.update (snd it) (entry h it) (manifest st)"
    by (auto simp: loop_body_def Let_def split: option.splits node.splits)
  from assms f e show "to_generate st' =
          (if cached cm ca (snd it) = None then to_generate st @ [(snd it, entry h it)]
           else to_generate st)"
    by (auto simp: loop_body_def cached_def Let_def split: option.splits node.splits)
  from assms f e show "copied st' =
      (if cached cm ca (snd it) = None then copied st else copied st + 1)"
    by (auto simp: loop_body_def cached_def Let_def split: option.splits node.splits)
  from assms f e show "audio_dir st' =
          (case cached cm ca (snd it) of
             Some (File audio) \<Rightarrow> AList.update (entry h it) audio (audio_dir st)
           | _ \<Rightarrow> audio_dir st)"
    by (auto simp: loop_body_def cached_def Let_def split: option.splits node.splits)
qed

text \<open>When one iteration raises, and what.\<close>

lemma loop_body_cases:
  "loop_body h cm ca it st =
     (if \<not> encodable (snd it) then Inl UnicodeEncodeError
      else if cached cm ca (snd it) = Some Uncopyable then Inl CopyError
      else loop_body h cm ca it st)
   \<and> (encodable (snd it) \<and> cached cm ca (snd it) \<noteq> Some Uncopyable \<longrightarrow>
        (\<exists>st'. loop_body h cm ca it st = Inr st'))"
proof (cases "encodable (snd it)")
  case False
  then have "repo_filename h (snd it) (int (fst it)) = Inl UnicodeEncodeError"
    by (simp add: repo_filename_Inl_iff)
  with False show ?thesis by (simp add: loop_body_def Let_def)
next
  case True
  then have "repo_filename h (snd it) (int (fst it)) = Inr (entry h it)"
    by (rule entry_encodable)
  with True show ?thesis
    by (auto simp: loop_body_def cached_def Let_def split: option.splits node.splits)
qed

lemma loop_body_Inl:
  "loop_body h cm ca it st = Inl err \<Longrightarrow>
     (\<not> encodable (snd it) \<and> err = UnicodeEncodeError)
   \<or> (encodable (snd it) \<and> cached cm ca (snd it) = Some Uncopyable \<and> err = CopyError)"
  using loop_body_cases [of h cm ca it st] by (auto split: if_splits)

lemma main_loop_Cons_Inr:
  "main_loop h cm ca (it # its) st = Inr st' \<Longrightarrow>
   \<exists>st1. loop_body h cm ca it st = Inr st1 \<and> main_loop h cm ca its st1 = Inr st'"
  by (auto split: sum.splits)

lemma main_loop_ok:
  "main_loop h cm ca its st = Inr st' \<Longrightarrow> it \<in> set its \<Longrightarrow>
   encodable (snd it) \<and> cached cm ca (snd it) \<noteq> Some Uncopyable"
proof (induction its arbitrary: st)
  case Nil
  then show ?case by simp
next
  case (Cons x its)
  from main_loop_Cons_Inr [OF Cons.prems(1)] obtain st1 where
    b: "loop_body h cm ca x st = Inr st1" and r: "main_loop h cm ca its st1 = Inr st'"
    by blast
  show ?case
  proof (cases "it = x")
    case True
    with loop_body_Inr(1,2) [OF b] show ?thesis by simp
  next
    case False
    with Cons.prems have "it \<in> set its" by simp
    from Cons.IH [OF r this] show ?thesis .
  qed
qed

lemma main_loop_Inr_iff:
  "(\<exists>st'. main_loop h cm ca its st = Inr st') \<longleftrightarrow>
   (\<forall>it \<in> set its. encodable (snd it) \<and> cached cm ca (snd it) \<noteq> Some Uncopyable)"
proof
  assume "\<exists>st'. main_loop h cm ca its st = Inr st'"
  then show "\<forall>it \<in> set its. encodable (snd it) \<and> cached cm ca (snd it) \<noteq> Some Uncopyable"
    using main_loop_ok by blast
next
  assume "\<forall>it \<in> set its. encodable (snd it) \<and> cached cm ca (snd it) \<noteq> Some Uncopyable"
  then show "\<exists>st'. main_loop h cm ca its st = Inr st'"
  proof (induction its arbitrary: st)
    case Nil
    show ?case by simp
  next
    case (Cons x its)
    then have "encodable (snd x) \<and> cached cm ca (snd x) \<noteq> Some Uncopyable" by simp
    with loop_body_cases [of h cm ca x st] obtain st1 where
      b: "loop_body h cm ca x st = Inr st1" by blast
    from Cons have "\<exists>st'. main_loop h cm ca its st1 = Inr st'" by simp
    with b show ?case by simp
  qed
qed

lemma main_loop_Inl:
  "main_loop h cm ca its st = Inl err \<Longrightarrow>
   \<exists>it \<in> set its. (\<not> encodable (snd it) \<and> err = UnicodeEncodeError)
      \<or> (cached cm ca (snd it) = Some Uncopyable \<and> err = CopyError)"
proof (induction its arbitrary: st)
  case Nil
  then show ?case by simp
next
  case (Cons x its)
  show ?case
  proof (cases "loop_body h cm ca x st")
    case (Inl e)
    with Cons.prems have "e = err" by simp
    with Inl loop_body_Inl [of h cm ca x st err] show ?thesis by auto
  next
    case (Inr st1)
    with Cons.prems have "main_loop h cm ca its st1 = Inl err" by simp
    from Cons.IH [OF this] show ?thesis by auto
  qed
qed

lemma main_loop_manifest:
  "main_loop h cm ca its st = Inr st' \<Longrightarrow> distinct (map snd its) \<Longrightarrow>
   \<forall>it \<in> set its. snd it \<notin> fst ` set (manifest st) \<Longrightarrow>
   manifest st' = manifest st @ map (\<lambda>it. (snd it, entry h it)) its"
proof (induction its arbitrary: st)
  case Nil
  then show ?case by simp
next
  case (Cons it its)
  from main_loop_Cons_Inr [OF Cons.prems(1)] obtain st1 where
    b: "loop_body h cm ca it st = Inr st1" and r: "main_loop h cm ca its st1 = Inr st'"
    by blast
  from Cons.prems have new: "snd it \<notin> fst ` set (manifest st)" by simp
  then have m: "manifest st1 = manifest st @ [(snd it, entry h it)]"
    by (simp add: loop_body_Inr(3) [OF b] update_new_key)
  have fresh: "\<forall>x \<in> set its. snd x \<notin> fst ` set (manifest st1)"
  proof
    fix x assume x: "x \<in> set its"
    then have "snd x \<in> snd ` set its" by (rule imageI)
    moreover from Cons.prems have "snd it \<notin> snd ` set its" by simp
    ultimately have ne: "snd x \<noteq> snd it" by metis
    from x Cons.prems have "snd x \<notin> fst ` set (manifest st)" by simp
    with ne show "snd x \<notin> fst ` set (manifest st1)" by (auto simp: m)
  qed
  from Cons.prems have "distinct (map snd its)" by simp
  from Cons.IH [OF r this fresh] show ?case by (simp add: m)
qed

lemma main_loop_to_generate:
  "main_loop h cm ca its st = Inr st' \<Longrightarrow>
   to_generate st' =
     to_generate st @
     map (\<lambda>it. (snd it, entry h it)) (filter (\<lambda>it. cached cm ca (snd it) = None) its)"
proof (induction its arbitrary: st)
  case Nil
  then show ?case by simp
next
  case (Cons it its)
  from main_loop_Cons_Inr [OF Cons.prems(1)] obtain st1 where
    b: "loop_body h cm ca it st = Inr st1" and r: "main_loop h cm ca its st1 = Inr st'"
    by blast
  from Cons.IH [OF r] loop_body_Inr(4) [OF b] show ?case by simp
qed


lemma loop_body_other:
  "loop_body h cm ca it st = Inr st1 \<Longrightarrow> f \<noteq> entry h it \<Longrightarrow>
   map_of (audio_dir st1) f = map_of (audio_dir st) f"
  by (simp add: loop_body_Inr(6) update_conv' split: option.splits node.splits)

lemma main_loop_untouched:
  "main_loop h cm ca its st = Inr st' \<Longrightarrow> \<forall>it \<in> set its. entry h it \<noteq> f \<Longrightarrow>
   map_of (audio_dir st') f = map_of (audio_dir st) f"
proof (induction its arbitrary: st)
  case Nil
  then show ?case by simp
next
  case (Cons it its)
  from main_loop_Cons_Inr [OF Cons.prems(1)] obtain st1 where
    b: "loop_body h cm ca it st = Inr st1" and r: "main_loop h cm ca its st1 = Inr st'"
    by blast
  from Cons.prems have "f \<noteq> entry h it" by auto
  from loop_body_other [OF b this]
  have "map_of (audio_dir st1) f = map_of (audio_dir st) f" .
  moreover from Cons.prems have "\<forall>it \<in> set its. entry h it \<noteq> f" by simp
  from Cons.IH [OF r this] have "map_of (audio_dir st') f = map_of (audio_dir st1) f" .
  ultimately show ?case by simp
qed

lemma main_loop_copy:
  "main_loop h cm ca its st = Inr st' \<Longrightarrow> distinct (map fst its) \<Longrightarrow> it \<in> set its \<Longrightarrow>
   cached cm ca (snd it) = Some (File audio) \<Longrightarrow>
   map_of (audio_dir st') (entry h it) = Some audio"
proof (induction its arbitrary: st)
  case Nil
  then show ?case by simp
next
  case (Cons x its)
  from main_loop_Cons_Inr [OF Cons.prems(1)] obtain st1 where
    b: "loop_body h cm ca x st = Inr st1" and r: "main_loop h cm ca its st1 = Inr st'"
    by blast
  show ?case
  proof (cases "it \<in> set its")
    case True
    from Cons.prems have "distinct (map fst its)" by simp
    from Cons.IH [OF r this True Cons.prems(4)] show ?thesis .
  next
    case False
    with Cons.prems have x: "x = it" by simp
    from loop_body_Inr(1) [OF b] x have enc: "encodable (snd it)" by simp
    have "\<forall>y \<in> set its. entry h y \<noteq> entry h it"
    proof
      fix y assume y: "y \<in> set its"
      with Cons.prems x have "fst y \<noteq> fst it" by (auto simp: image_iff)
      moreover from main_loop_ok [OF r y] have "encodable (snd y)" by simp
      ultimately show "entry h y \<noteq> entry h it" using entry_inj enc by blast
    qed
    from main_loop_untouched [OF r this]
    have "map_of (audio_dir st') (entry h it) = map_of (audio_dir st1) (entry h it)" .
    also have "\<dots> = Some audio"
      using Cons.prems(4) by (simp add: loop_body_Inr(6) [OF b] x update_conv')
    finally show ?thesis .
  qed
qed

lemma main_loop_keeps:
  "main_loop h cm ca its st = Inr st' \<Longrightarrow> map_of (audio_dir st) f \<noteq> None \<Longrightarrow>
   map_of (audio_dir st') f \<noteq> None"
proof (induction its arbitrary: st)
  case Nil
  then show ?case by simp
next
  case (Cons it its)
  from main_loop_Cons_Inr [OF Cons.prems(1)] obtain st1 where
    b: "loop_body h cm ca it st = Inr st1" and r: "main_loop h cm ca its st1 = Inr st'"
    by blast
  from Cons.prems have "map_of (audio_dir st1) f \<noteq> None"
    by (auto simp: loop_body_Inr(6) [OF b] update_conv' split: option.splits node.splits)
  from Cons.IH [OF r this] show ?case .
qed


subsection \<open>Facts about the synthesis stage\<close>

lemma gather_Inr_iff:
  "(\<exists>d'. gather tts tasks d = Inr d') \<longleftrightarrow> (\<forall>task \<in> set tasks. tts (fst task) \<noteq> None)"
  by (induction tasks arbitrary: d) (auto simp: generate_tts_def split: option.splits)

lemma gather_other:
  "gather tts tasks d = Inr d' \<Longrightarrow> f \<notin> snd ` set tasks \<Longrightarrow> map_of d' f = map_of d f"
proof (induction tasks arbitrary: d)
  case Nil
  then show ?case by simp
next
  case (Cons task tasks)
  then obtain audio where a: "tts (fst task) = Some audio"
    and r: "gather tts tasks (AList.update (snd task) audio d) = Inr d'"
    by (auto simp: generate_tts_def split: option.splits)
  from Cons.prems have "f \<noteq> snd task" "f \<notin> snd ` set tasks" by auto
  with Cons.IH [OF r] show ?case by (simp add: update_conv')
qed

lemma gather_written:
  "gather tts tasks d = Inr d' \<Longrightarrow> distinct (map snd tasks) \<Longrightarrow> task \<in> set tasks \<Longrightarrow>
   map_of d' (snd task) = tts (fst task)"
proof (induction tasks arbitrary: d)
  case Nil
  then show ?case by simp
next
  case (Cons x tasks)
  then obtain audio where a: "tts (fst x) = Some audio"
    and r: "gather tts tasks (AList.update (snd x) audio d) = Inr d'"
    by (auto simp: generate_tts_def split: option.splits)
  show ?case
  proof (cases "task \<in> set tasks")
    case True
    with Cons.prems Cons.IH [OF r] show ?thesis by simp
  next
    case False
    with Cons.prems have x: "x = task" by simp
    from Cons.prems have "snd x \<notin> snd ` set tasks" by simp
    from gather_other [OF r this] a show ?thesis by (simp add: x update_conv')
  qed
qed

lemma gather_keeps:
  "gather tts tasks d = Inr d' \<Longrightarrow> map_of d f \<noteq> None \<Longrightarrow> map_of d' f \<noteq> None"
proof (induction tasks arbitrary: d)
  case Nil
  then show ?case by simp
next
  case (Cons x tasks)
  then obtain audio where a: "tts (fst x) = Some audio"
    and r: "gather tts tasks (AList.update (snd x) audio d) = Inr d'"
    by (auto simp: generate_tts_def split: option.splits)
  from Cons.prems have "map_of (AList.update (snd x) audio d) f \<noteq> None"
    by (simp add: update_conv')
  from Cons.IH [OF r this] show ?case .
qed

lemma gather_Inl:
  "gather tts tasks d = Inl err \<Longrightarrow>
   \<exists>task \<in> set tasks. tts (fst task) = None \<and> err = SynthesisError (fst task)"
proof (induction tasks arbitrary: d)
  case Nil
  then show ?case by simp
next
  case (Cons x tasks)
  show ?case
  proof (cases "tts (fst x)")
    case None
    with Cons.prems have "err = SynthesisError (fst x)"
      by (simp add: generate_tts_def)
    with None show ?thesis by simp
  next
    case (Some audio)
    with Cons.prems have "gather tts tasks (AList.update (snd x) audio d) = Inl err"
      by (simp add: generate_tts_def)
    from Cons.IH [OF this] show ?thesis by auto
  qed
qed

lemma gather_fails:
  "task \<in> set tasks \<Longrightarrow> tts (fst task) = None \<Longrightarrow> \<exists>err. gather tts tasks d = Inl err"
proof -
  assume "task \<in> set tasks" "tts (fst task) = None"
  then have "\<not> (\<exists>d'. gather tts tasks d = Inr d')"
    unfolding gather_Inr_iff by blast
  then show ?thesis by (cases "gather tts tasks d") auto
qed

lemma gather_mp3_only:
  "gather tts tasks d = Inr d' \<Longrightarrow> \<forall>task \<in> set tasks. endswith (snd task) ''.mp3'' \<Longrightarrow>
   \<not> endswith f ''.mp3'' \<Longrightarrow> map_of d' f = map_of d f"
proof -
  assume g: "gather tts tasks d = Inr d'"
    and t: "\<forall>task \<in> set tasks. endswith (snd task) ''.mp3''" and f: "\<not> endswith f ''.mp3''"
  from t f have "f \<notin> snd ` set tasks" by auto
  from gather_other [OF g this] show ?thesis .
qed

lemma arrange_indices:
  "set (remdups (filter (\<lambda>i. i < n) order) @
        filter (\<lambda>i. i \<notin> set (remdups (filter (\<lambda>i. i < n) order))) [0..<n]) = {0..<n}
   \<and> distinct (remdups (filter (\<lambda>i. i < n) order) @
        filter (\<lambda>i. i \<notin> set (remdups (filter (\<lambda>i. i < n) order))) [0..<n])"
  by auto

lemma set_arrange: "set (arrange order tasks) = set tasks"
proof -
  let ?is = "remdups (filter (\<lambda>i. i < length tasks) order) @
     filter (\<lambda>i. i \<notin> set (remdups (filter (\<lambda>i. i < length tasks) order))) [0..<length tasks]"
  have "set (arrange order tasks) = (\<lambda>i. tasks ! i) ` set ?is"
    by (simp only: arrange_def Let_def set_map)
  also have "set ?is = {0..<length tasks}"
    using arrange_indices [of "length tasks" order] by blast
  also have "(\<lambda>i. tasks ! i) ` {0..<length tasks} = set tasks"
    by (auto simp: set_conv_nth)
  finally show ?thesis .
qed

lemma map_arrange: "map f (arrange order tasks) = arrange order (map f tasks)"
  by (simp add: arrange_def Let_def)

lemma distinct_arrange: "distinct xs \<Longrightarrow> distinct (arrange order xs)"
proof -
  assume d: "distinct xs"
  let ?is = "remdups (filter (\<lambda>i. i < length xs) order) @
     filter (\<lambda>i. i \<notin> set (remdups (filter (\<lambda>i. i < length xs) order))) [0..<length xs]"
  have s: "set ?is = {0..<length xs}" and di: "distinct ?is"
    using arrange_indices [of "length xs" order] by blast+
  have "inj_on (\<lambda>i. xs ! i) (set ?is)"
    unfolding s using d by (auto simp: inj_on_def nth_eq_iff_index_eq)
  with di have "distinct (map (\<lambda>i. xs ! i) ?is)"
    by (simp only: distinct_map simp_thms)
  then show ?thesis by (simp add: arrange_def Let_def)
qed

subsection \<open>Facts about the manifest write and the orphan sweep\<close>

lemma write_manifest_map_of:
  "map_of (write_manifest m d) = (map_of d)(mpath \<mapsto> ManifestDoc m)"
  by (simp add: write_manifest_def write_manifest_states_def update_conv')

lemma sweep_filter:
  "sweep m fs (d, r) =
     (filter (\<lambda>p. \<not> (fst p \<in> set fs \<and> is_orphan m (fst p))) d,
      r + length (filter (is_orphan m) fs))"
proof (induction fs arbitrary: d r)
  case Nil
  then show ?case by simp
next
  case (Cons f fs)
  have del: "AList.delete f d = filter (\<lambda>p. fst p \<noteq> f) d"
    by (induction d) auto
  show ?case
  proof (cases "is_orphan m f")
    case True
    have "filter (\<lambda>p. \<not> (fst p \<in> set fs \<and> is_orphan m (fst p))) (filter (\<lambda>p. fst p \<noteq> f) d) =
          filter (\<lambda>p. \<not> (fst p \<in> set (f # fs) \<and> is_orphan m (fst p))) d"
      using True by (auto intro: filter_cong)
    with True show ?thesis by (simp add: Cons.IH del)
  next
    case False
    have "filter (\<lambda>p. \<not> (fst p \<in> set fs \<and> is_orphan m (fst p))) d =
          filter (\<lambda>p. \<not> (fst p \<in> set (f # fs) \<and> is_orphan m (fst p))) d"
      using False by (auto intro: filter_cong)
    with False show ?thesis by (simp add: Cons.IH)
  qed
qed

lemma clean_orphans_filter:
  "clean_orphans m d =
     (filter (\<lambda>p. \<not> is_orphan m (fst p)) d, length (filter (is_orphan m) (map fst d)))"
proof -
  have "filter (\<lambda>p. \<not> (fst p \<in> set (map fst d) \<and> is_orphan m (fst p))) d =
        filter (\<lambda>p. \<not> is_orphan m (fst p)) d"
    by (auto intro: filter_cong)
  then show ?thesis by (simp add: clean_orphans_def sweep_filter)
qed

lemma map_of_filter_keys:
  "map_of (filter (\<lambda>p. P (fst p)) d) f = (if P f then map_of d f else None)"
  by (induction d) auto

lemma clean_orphans_map_of:
  "map_of (fst (clean_orphans m d)) f = (if is_orphan m f then None else map_of d f)"
  using map_of_filter_keys [of "\<lambda>f. \<not> is_orphan m f" d f]
  by (simp add: clean_orphans_filter)

lemma in_keys_iff: "f \<in> fst ` set d \<longleftrightarrow> map_of d f \<noteq> None"
  by (simp add: map_of_eq_None_iff)

subsection \<open>Facts about the extraction\<close>

lemma finite_add_each: "finite s \<Longrightarrow> finite (add_each xs s)"
  by (induction xs arbitrary: s) simp_all

lemma finite_add_places: "finite s \<Longrightarrow> finite (add_places ps s)"
  by (induction ps arbitrary: s) (simp_all add: Let_def split: option.splits)

lemma finite_add_with_particle:
  "finite s \<Longrightarrow> add_with_particle a b xs s = Inr s' \<Longrightarrow> finite s'"
proof (induction xs arbitrary: s)
  case Nil
  then show ?case by simp
next
  case (Cons k xs)
  then obtain p where "add_with_particle a b xs (insert p (insert k s)) = Inr s'"
    by (auto split: sum.splits)
  moreover from Cons.prems have "finite (insert p (insert k s))" by simp
  ultimately show ?case using Cons.IH by blast
qed

lemma finite_add_verbs: "finite s \<Longrightarrow> finite (add_verbs vs s)"
  by (induction vs arbitrary: s) (simp_all split: option.splits)

lemma finite_add_cards: "finite s \<Longrightarrow> finite (add_cards cs s)"
  by (induction cs arbitrary: s) (simp_all add: finite_add_each)

lemma finite_add_situations: "finite s \<Longrightarrow> finite (add_situations ss s)"
  by (induction ss arbitrary: s) (simp_all add: finite_add_each Let_def split: option.splits)

lemma finite_add_sentences: "finite s \<Longrightarrow> finite (add_sentences ss s)"
  by (induction ss arbitrary: s) (simp_all split: option.splits)

lemma finite_add_chapters: "finite s \<Longrightarrow> finite (add_chapters cs s)"
  by (induction cs arbitrary: s) (simp_all add: finite_add_sentences)

lemmas finite_adds =
  finite_add_each finite_add_places finite_add_verbs finite_add_cards
  finite_add_situations finite_add_sentences finite_add_chapters

lemma finite_collect_texts: "collect_texts data sdata = Inr s \<Longrightarrow> finite s"
proof -
  assume c: "collect_texts data sdata = Inr s"
  let ?t3 = "add_places (action_places data)
      (add_each (action_times data) (add_each (action_subjects data) {}))"
  from c obtain t4 where t4: "add_with_particle eul reul (action_objects data) ?t3 = Inr t4"
    by (auto simp: collect_texts_def Let_def split: sum.splits)
  let ?t5 = "add_verbs (action_verbs data) t4"
  from c t4 obtain t6 where
    t6: "add_with_particle i_particle ga_particle (describe_subjects data) ?t5 = Inr t6"
    by (auto simp: collect_texts_def Let_def split: sum.splits)
  let ?t10 = "add_each (intro_topics data) (add_cards (flashcards_categories data)
      (add_each (describe_adverbs data) (add_each (describe_adjectives data) t6)))"
  from c t4 t6 obtain t11 where
    t11: "add_with_particle ieyo yeyo (intro_nouns data) ?t10 = Inr t11"
    by (auto simp: collect_texts_def Let_def split: sum.splits)
  let ?t12 = "add_situations (quiz_situations data) t11"
  from c t4 t6 t11 have s: "s = (case sdata of Some chapters \<Rightarrow> add_chapters chapters ?t12
      | None \<Rightarrow> ?t12)"
    by (simp add: collect_texts_def Let_def)
  have "finite ?t3" by (simp add: finite_adds)
  from finite_add_with_particle [OF this t4] have "finite ?t5" by (simp add: finite_adds)
  from finite_add_with_particle [OF this t6] have "finite ?t10" by (simp add: finite_adds)
  from finite_add_with_particle [OF this t11] have "finite ?t12" by (simp add: finite_adds)
  then show ?thesis unfolding s by (simp add: finite_adds split: option.splits)
qed

lemma extract_all_texts_sorted:
  assumes "extract_all_texts vocab sents = Inr texts"
  shows "\<exists>data s. vocab = Some data \<and> collect_texts data sents = Inr s
           \<and> set texts = s - {[]} \<and> sorted texts \<and> distinct texts"
proof -
  from assms obtain data where v: "vocab = Some data"
    by (auto simp: extract_all_texts_def split: option.splits)
  with assms obtain s where s: "collect_texts data sents = Inr s"
    and t: "texts = sorted_list_of_set (s - {[]})"
    by (auto simp: extract_all_texts_def split: sum.splits)
  from finite_collect_texts [OF s] have "finite (s - {[]})" by simp
  then have "set texts = s - {[]} \<and> sorted texts \<and> distinct texts"
    unfolding t by simp
  with v s show ?thesis by blast
qed

subsection \<open>Facts about \<^verbatim>\<open>main\<close>\<close>

lemma main_plan:
  assumes "extract_all_texts (vocab_json e) (sentences_json e) = Inr texts"
    and "load_central_manifest (central_manifest_file e) = Inr cm"
  shows "main e d =
     (case plan e d texts cm of
        Inl err \<Rightarrow> Inl err
      | Inr st \<Rightarrow>
          (case gather (tts_save e) (arrange (completion_order e) (to_generate st))
                  (audio_dir st) of
             Inl err \<Rightarrow> Inl err
           | Inr d1 \<Rightarrow>
               Inr \<lparr>final_dir =
                      fst (clean_orphans (manifest st) (write_manifest (manifest st) d1)),
                    final_manifest = manifest st,
                    generated = to_generate st,
                    n_texts = length texts,
                    n_copied = copied st,
                    n_removed =
                      snd (clean_orphans (manifest st) (write_manifest (manifest st) d1))\<rparr>))"
  using assms by (simp add: main_def plan_def Let_def split: sum.splits)

lemma main_Inr:
  assumes "main e d = Inr r"
  shows "\<exists>texts cm st d1.
      extract_all_texts (vocab_json e) (sentences_json e) = Inr texts
    \<and> load_central_manifest (central_manifest_file e) = Inr cm
    \<and> plan e d texts cm = Inr st
    \<and> gather (tts_save e) (arrange (completion_order e) (to_generate st)) (audio_dir st) = Inr d1
    \<and> r = \<lparr>final_dir = fst (clean_orphans (manifest st) (write_manifest (manifest st) d1)),
            final_manifest = manifest st,
            generated = to_generate st,
            n_texts = length texts,
            n_copied = copied st,
            n_removed = snd (clean_orphans (manifest st) (write_manifest (manifest st) d1))\<rparr>"
  using assms by (auto simp: main_def plan_def Let_def split: sum.splits)

lemma main_Inl:
  assumes "extract_all_texts (vocab_json e) (sentences_json e) = Inr texts"
    and "load_central_manifest (central_manifest_file e) = Inr cm"
    and "plan e d texts cm = Inr st"
    and "main e d = Inl err"
  shows "gather (tts_save e) (arrange (completion_order e) (to_generate st)) (audio_dir st)
           = Inl err"
  using assms by (simp add: main_plan split: sum.splits)

lemma enumerate_nth: "i < length xs \<Longrightarrow> (i, xs ! i) \<in> set (enumerate 0 xs)"
  by (simp add: in_set_enumerate_eq)

lemma enumerate_snd: "it \<in> set (enumerate 0 xs) \<Longrightarrow> snd it \<in> set xs"
proof -
  assume "it \<in> set (enumerate 0 xs)"
  then have "fst it < length xs" and "snd it = xs ! fst it"
    by (simp_all add: in_set_enumerate_eq)
  then show ?thesis by (metis nth_mem)
qed

lemma enumerate_eq: "it \<in> set (enumerate 0 xs) \<Longrightarrow> snd it = xs ! fst it"
  by (simp add: in_set_enumerate_eq)

lemma enumerate_mem: "t \<in> set xs \<Longrightarrow> \<exists>i. (i, t) \<in> set (enumerate 0 xs)"
  by (metis enumerate_nth in_set_conv_nth)

lemma plan_ok:
  "plan e d texts cm = Inr st \<Longrightarrow> t \<in> set texts \<Longrightarrow>
   encodable t \<and> cached cm (central_audio e) t \<noteq> Some Uncopyable"
proof -
  assume p: "plan e d texts cm = Inr st" and "t \<in> set texts"
  then obtain i where "(i, t) \<in> set (enumerate 0 texts)" using enumerate_mem by metis
  with p main_loop_ok [of "md5_hexdigest e" cm "central_audio e" "enumerate 0 texts"
      "init_state d" st "(i, t)"]
  show ?thesis by (simp add: plan_def)
qed

lemma plan_Inr_iff:
  "(\<exists>st. plan e d texts cm = Inr st) \<longleftrightarrow>
   (\<forall>t \<in> set texts. encodable t \<and> cached cm (central_audio e) t \<noteq> Some Uncopyable)"
proof
  assume "\<exists>st. plan e d texts cm = Inr st"
  then show "\<forall>t \<in> set texts. encodable t \<and> cached cm (central_audio e) t \<noteq> Some Uncopyable"
    using plan_ok by blast
next
  assume a: "\<forall>t \<in> set texts. encodable t \<and> cached cm (central_audio e) t \<noteq> Some Uncopyable"
  have "\<forall>it \<in> set (enumerate 0 texts).
      encodable (snd it) \<and> cached cm (central_audio e) (snd it) \<noteq> Some Uncopyable"
    using a enumerate_snd by blast
  then show "\<exists>st. plan e d texts cm = Inr st"
    unfolding plan_def main_loop_Inr_iff .
qed

lemma plan_manifest:
  "plan e d texts cm = Inr st \<Longrightarrow> distinct texts \<Longrightarrow>
   manifest st = map (\<lambda>it. (snd it, entry (md5_hexdigest e) it)) (enumerate 0 texts)"
  using main_loop_manifest [of "md5_hexdigest e" cm "central_audio e" "enumerate 0 texts"
      "init_state d" st]
  by (simp add: plan_def init_state_def)

lemma plan_to_generate:
  "plan e d texts cm = Inr st \<Longrightarrow>
   to_generate st =
     map (\<lambda>it. (snd it, entry (md5_hexdigest e) it))
       (filter (\<lambda>it. cached cm (central_audio e) (snd it) = None) (enumerate 0 texts))"
  using main_loop_to_generate [of "md5_hexdigest e" cm "central_audio e" "enumerate 0 texts"
      "init_state d" st]
  by (simp add: plan_def init_state_def)


lemma plan_copy:
  "plan e d texts cm = Inr st \<Longrightarrow> i < length texts \<Longrightarrow>
   cached cm (central_audio e) (texts ! i) = Some (File audio) \<Longrightarrow>
   map_of (audio_dir st) (entry (md5_hexdigest e) (i, texts ! i)) = Some audio"
  using main_loop_copy [of "md5_hexdigest e" cm "central_audio e" "enumerate 0 texts"
      "init_state d" st "(i, texts ! i)" audio]
  by (simp add: plan_def enumerate_nth)


text \<open>The tasks write files with the names of the manifest, all different.\<close>

lemma plan_tasks:
  assumes "plan e d texts cm = Inr st"
  shows "set (to_generate st) \<subseteq> (\<lambda>it. (snd it, entry (md5_hexdigest e) it)) ` set (enumerate 0 texts)"
    and "distinct (map snd (to_generate st))"
    and "\<forall>task \<in> set (to_generate st). endswith (snd task) ''.mp3''"
proof -
  let ?h = "md5_hexdigest e"
  let ?its = "filter (\<lambda>it. cached cm (central_audio e) (snd it) = None) (enumerate 0 texts)"
  have tg: "to_generate st = map (\<lambda>it. (snd it, entry ?h it)) ?its"
    using assms by (rule plan_to_generate)
  then show "set (to_generate st) \<subseteq> (\<lambda>it. (snd it, entry ?h it)) ` set (enumerate 0 texts)"
    by auto
  have enc: "encodable (snd it)" if "it \<in> set (enumerate 0 texts)" for it
    using plan_ok [OF assms] enumerate_snd [OF that] by blast
  have "distinct (enumerate 0 texts)" by (rule distinct_enumerate)
  then have di: "distinct ?its" by simp
  have "inj_on (entry ?h) (set ?its)"
  proof (rule inj_onI)
    fix a b assume a: "a \<in> set ?its" and b: "b \<in> set ?its" and eq: "entry ?h a = entry ?h b"
    from a b have ea: "encodable (snd a)" and eb: "encodable (snd b)" by (simp_all add: enc)
    from entry_inj [OF ea eb eq] have f: "fst a = fst b" .
    from a b have "a \<in> set (enumerate 0 texts)" "b \<in> set (enumerate 0 texts)" by simp_all
    then have "snd a = texts ! fst a" "snd b = texts ! fst b"
      by (simp_all add: enumerate_eq)
    with f show "a = b" by (simp add: prod_eq_iff)
  qed
  with di have "distinct (map (entry ?h) ?its)" by (simp only: distinct_map simp_thms)
  moreover have "map snd (to_generate st) = map (entry ?h) ?its" by (simp add: tg)
  ultimately show "distinct (map snd (to_generate st))" by simp
  show "\<forall>task \<in> set (to_generate st). endswith (snd task) ''.mp3''"
    unfolding tg using enc entry_mp3 by auto
qed

lemma plan_copy_not_task:
  assumes "plan e d texts cm = Inr st" and "i < length texts"
    and "cached cm (central_audio e) (texts ! i) \<noteq> None"
  shows "texts ! i \<notin> fst ` set (to_generate st) \<or> \<not> distinct texts"
    and "entry (md5_hexdigest e) (i, texts ! i) \<notin> snd ` set (to_generate st)"
proof -
  let ?h = "md5_hexdigest e"
  have tg: "to_generate st = map (\<lambda>it. (snd it, entry ?h it))
      (filter (\<lambda>it. cached cm (central_audio e) (snd it) = None) (enumerate 0 texts))"
    using assms(1) by (rule plan_to_generate)
  from assms(3) show "texts ! i \<notin> fst ` set (to_generate st) \<or> \<not> distinct texts"
    by (auto simp: tg)
  show "entry ?h (i, texts ! i) \<notin> snd ` set (to_generate st)"
  proof
    assume "entry ?h (i, texts ! i) \<in> snd ` set (to_generate st)"
    then obtain it where it: "it \<in> set (enumerate 0 texts)"
      and c: "cached cm (central_audio e) (snd it) = None"
      and eq: "entry ?h it = entry ?h (i, texts ! i)"
      by (auto simp: tg)
    from it have s: "snd it = texts ! fst it" by (rule enumerate_eq)
    from it have "snd it \<in> set texts" by (rule enumerate_snd)
    then have "encodable (snd it)" using plan_ok [OF assms(1)] by blast
    moreover from assms(2) have "encodable (snd (i, texts ! i))"
      using plan_ok [OF assms(1)] by simp
    ultimately have "fst it = i" using entry_inj [OF _ _ eq] by simp
    with s c assms(3) show False by simp
  qed
qed

subsection \<open>The scenario, evaluated\<close>

lemma texts_scn_order: "saranghaeyo < annyeong" "annyeong < hakgyo"
  by (simp_all add: saranghaeyo_def annyeong_def hakgyo_def)

lemma texts_scn_distinct:
  "saranghaeyo \<noteq> annyeong" "annyeong \<noteq> hakgyo" "saranghaeyo \<noteq> hakgyo"
  "annyeong \<noteq> saranghaeyo" "hakgyo \<noteq> annyeong" "hakgyo \<noteq> saranghaeyo"
  "annyeong \<noteq> []" "saranghaeyo \<noteq> []" "hakgyo \<noteq> []"
  by (simp_all add: saranghaeyo_def annyeong_def hakgyo_def)

lemma texts_scn_encodable: "encodable saranghaeyo" "encodable annyeong" "encodable hakgyo"
  by (simp_all add: encodable_def is_scalar_def saranghaeyo_def annyeong_def hakgyo_def)

lemma extract_scn:
  "extract_all_texts (Some vocab_scn) None = Inr [saranghaeyo, annyeong, hakgyo]"
proof -
  have c: "collect_texts vocab_scn None = Inr {annyeong, saranghaeyo, [], hakgyo}"
    by (auto simp: collect_texts_def vocab_scn_def Let_def)
  have s: "{annyeong, saranghaeyo, [], hakgyo} - {[]} = set [saranghaeyo, annyeong, hakgyo]"
    using texts_scn_distinct by auto
  have "sorted_list_of_set (set [saranghaeyo, annyeong, hakgyo]) = [saranghaeyo, annyeong, hakgyo]"
    using texts_scn_order texts_scn_distinct
    by (intro sorted_list_of_set.idem_if_sorted_distinct) auto
  with c s show ?thesis by (simp add: extract_all_texts_def)
qed

lemma names_scn:
  "repo_filename md5_sample saranghaeyo 0 = Inr ''0000_137a01.mp3''"
  "repo_filename md5_sample annyeong 1 = Inr ''0001_ef1c51.mp3''"
  "repo_filename md5_sample hakgyo 2 = Inr ''0002_09b9db.mp3''"
  by (simp_all add: repo_filename_def encode_scn md5_sample_def format_eval)

lemma entries_scn:
  "entry md5_sample (0, saranghaeyo) = ''0000_137a01.mp3''"
  "entry md5_sample (1, annyeong) = ''0001_ef1c51.mp3''"
  "entry md5_sample (2, hakgyo) = ''0002_09b9db.mp3''"
  using names_scn by (simp_all add: entry_def)

lemma cached_scn:
  "cached central_manifest_scn central_audio_scn saranghaeyo = None"
  "cached central_manifest_scn central_audio_scn annyeong = Some (File (Bytes [1]))"
  "cached central_manifest_scn central_audio_scn hakgyo = None"
  using texts_scn_distinct
  by (simp_all add: cached_def central_manifest_scn_def central_audio_scn_def)

lemma loop_scn:
  "main_loop md5_sample central_manifest_scn central_audio_scn
     [(0, saranghaeyo), (1, annyeong), (2, hakgyo)] (init_state dir_scn) =
   Inr \<lparr>manifest = manifest_scn,
        to_generate = [(saranghaeyo, ''0000_137a01.mp3''), (hakgyo, ''0002_09b9db.mp3'')],
        copied = 1,
        audio_dir = dir_scn @ [(''0001_ef1c51.mp3'', Bytes [1])]\<rparr>"
  using texts_scn_distinct
  by (simp add: loop_body_def names_scn central_manifest_scn_def
      central_audio_scn_def init_state_def manifest_scn_def dir_scn_def Let_def)

lemma loop_missing_scn:
  "main_loop md5_sample Map.empty central_audio_scn
     [(0, saranghaeyo), (1, annyeong), (2, hakgyo)] (init_state dir_scn) =
   Inr \<lparr>manifest = manifest_scn, to_generate = manifest_scn, copied = 0, audio_dir = dir_scn\<rparr>"
  using texts_scn_distinct
  by (simp add: loop_body_def names_scn init_state_def manifest_scn_def Let_def)

lemma enumerate_scn: "enumerate 0 [a, b, c] = [(0, a), (1, b), (2, c)]"
  by simp

lemma plan_scn:
  "md5_hexdigest e = md5_sample \<Longrightarrow> central_audio e = central_audio_scn \<Longrightarrow>
   plan e dir_scn [saranghaeyo, annyeong, hakgyo] central_manifest_scn =
   Inr \<lparr>manifest = manifest_scn,
        to_generate = [(saranghaeyo, ''0000_137a01.mp3''), (hakgyo, ''0002_09b9db.mp3'')],
        copied = 1,
        audio_dir = dir_scn @ [(''0001_ef1c51.mp3'', Bytes [1])]\<rparr>"
  unfolding plan_def enumerate_scn by (simp only: loop_scn)

lemma plan_missing_scn:
  "md5_hexdigest e = md5_sample \<Longrightarrow> central_audio e = central_audio_scn \<Longrightarrow>
   plan e dir_scn [saranghaeyo, annyeong, hakgyo] Map.empty =
   Inr \<lparr>manifest = manifest_scn, to_generate = manifest_scn, copied = 0, audio_dir = dir_scn\<rparr>"
  unfolding plan_def enumerate_scn by (simp only: loop_missing_scn)

lemma arrange_scn:
  "arrange [1, 0] [a, b] = [b, a]" "arrange [1, 0] [a, b, c] = [b, a, c]"
  by (simp_all add: arrange_def Let_def upt_rec)

lemma orphans_scn:
  "is_orphan manifest_scn ''old.mp3''" "\<not> is_orphan manifest_scn ''notes.txt''"
  "\<not> is_orphan manifest_scn ''manifest.json''" "\<not> is_orphan manifest_scn ''0001_ef1c51.mp3''"
  "\<not> is_orphan manifest_scn ''0002_09b9db.mp3''" "\<not> is_orphan manifest_scn ''0000_137a01.mp3''"
  by (simp_all add: is_orphan_def manifest_scn_def endswith_def)

lemma gather_scn:
  "gather tts_echo (arrange [1, 0]
        [(saranghaeyo, ''0000_137a01.mp3''), (hakgyo, ''0002_09b9db.mp3'')])
        (dir_scn @ [(''0001_ef1c51.mp3'', Bytes [1])]) =
      Inr (dir_scn @ [(''0001_ef1c51.mp3'', Bytes [1]), (''0002_09b9db.mp3'', Bytes hakgyo),
        (''0000_137a01.mp3'', Bytes saranghaeyo)])"
  unfolding arrange_scn by (simp add: generate_tts_def tts_echo_def dir_scn_def)


lemma gather_missing_scn:
  "gather tts_echo (arrange [1, 0] manifest_scn) dir_scn =
      Inr (dir_scn @ [(''0001_ef1c51.mp3'', Bytes annyeong),
        (''0000_137a01.mp3'', Bytes saranghaeyo), (''0002_09b9db.mp3'', Bytes hakgyo)])"
  unfolding manifest_scn_def arrange_scn by (simp add: generate_tts_def tts_echo_def dir_scn_def)

lemma sweep_scn:
  "clean_orphans manifest_scn (write_manifest manifest_scn
        (dir_scn @ [(''0001_ef1c51.mp3'', Bytes [1]), (''0002_09b9db.mp3'', Bytes hakgyo),
          (''0000_137a01.mp3'', Bytes saranghaeyo)])) =
      ([(''notes.txt'', Bytes [7]), (''manifest.json'', ManifestDoc manifest_scn),
        (''0001_ef1c51.mp3'', Bytes [1]), (''0002_09b9db.mp3'', Bytes hakgyo),
        (''0000_137a01.mp3'', Bytes saranghaeyo)], 1)"
  by (simp add: clean_orphans_filter write_manifest_def write_manifest_states_def mpath_def
      dir_scn_def orphans_scn)

lemma sweep_missing_scn:
  "clean_orphans manifest_scn (write_manifest manifest_scn
        (dir_scn @ [(''0001_ef1c51.mp3'', Bytes annyeong),
          (''0000_137a01.mp3'', Bytes saranghaeyo), (''0002_09b9db.mp3'', Bytes hakgyo)])) =
      ([(''notes.txt'', Bytes [7]), (''manifest.json'', ManifestDoc manifest_scn),
        (''0001_ef1c51.mp3'', Bytes annyeong), (''0000_137a01.mp3'', Bytes saranghaeyo),
        (''0002_09b9db.mp3'', Bytes hakgyo)], 1)"
  by (simp add: clean_orphans_filter write_manifest_def write_manifest_states_def mpath_def
      dir_scn_def orphans_scn)

lemma env_scn_sel:
  "vocab_json env_scn = Some vocab_scn" "sentences_json env_scn = None"
  "central_manifest_file env_scn = Parsed central_manifest_scn"
  "central_audio env_scn = central_audio_scn" "md5_hexdigest env_scn = md5_sample"
  "tts_save env_scn = tts_echo" "completion_order env_scn = [1, 0]"
  by (simp_all add: env_scn_def)

lemma main_scn: "main env_scn dir_scn = Inr result_scn"
proof -
  have e: "extract_all_texts (vocab_json env_scn) (sentences_json env_scn) =
      Inr [saranghaeyo, annyeong, hakgyo]"
    by (simp only: env_scn_sel extract_scn)
  have l: "load_central_manifest (central_manifest_file env_scn) = Inr central_manifest_scn"
    by (simp add: env_scn_sel load_central_manifest_def)
  have p: "plan env_scn dir_scn [saranghaeyo, annyeong, hakgyo] central_manifest_scn =
      Inr \<lparr>manifest = manifest_scn,
        to_generate = [(saranghaeyo, ''0000_137a01.mp3''), (hakgyo, ''0002_09b9db.mp3'')],
        copied = 1,
        audio_dir = dir_scn @ [(''0001_ef1c51.mp3'', Bytes [1])]\<rparr>"
    by (rule plan_scn) (simp_all only: env_scn_sel)
  have n: "length [saranghaeyo, annyeong, hakgyo] = 3" by simp
  show ?thesis
    unfolding main_plan [OF e l] p
    by (simp only: sum.case build_state.select_convs env_scn_sel gather_scn sweep_scn
        fst_conv snd_conv n result_scn_def)
qed


lemma main_missing_scn:
  "main (env_scn\<lparr>central_manifest_file := Missing\<rparr>) dir_scn = Inr result_missing_scn"
proof -
  let ?e = "env_scn\<lparr>central_manifest_file := Missing\<rparr>"
  have sel: "vocab_json ?e = Some vocab_scn" "sentences_json ?e = None"
    "central_manifest_file ?e = Missing"
    "central_audio ?e = central_audio_scn" "md5_hexdigest ?e = md5_sample"
    "tts_save ?e = tts_echo" "completion_order ?e = [1, 0]"
    by (simp_all add: env_scn_def)
  have e: "extract_all_texts (vocab_json ?e) (sentences_json ?e) =
      Inr [saranghaeyo, annyeong, hakgyo]"
    by (simp only: sel extract_scn)
  have l: "load_central_manifest (central_manifest_file ?e) = Inr Map.empty"
    by (simp add: sel load_central_manifest_def)
  have p: "plan ?e dir_scn [saranghaeyo, annyeong, hakgyo] Map.empty =
      Inr \<lparr>manifest = manifest_scn, to_generate = manifest_scn, copied = 0,
        audio_dir = dir_scn\<rparr>"
    by (rule plan_missing_scn) (simp_all only: sel)
  have n: "length [saranghaeyo, annyeong, hakgyo] = 3" by simp
  show ?thesis
    unfolding main_plan [OF e l] p
    by (simp only: sum.case build_state.select_convs sel gather_missing_scn sweep_missing_scn
        fst_conv snd_conv n result_missing_scn_def)
qed


subsection \<open>Facts about a run that reaches the end\<close>

lemma gather_arranged:
  assumes "gather tts (arrange order tasks) d = Inr d1"
  shows "\<forall>task \<in> set tasks. tts (fst task) \<noteq> None"
    and "f \<notin> snd ` set tasks \<Longrightarrow> map_of d1 f = map_of d f"
    and "distinct (map snd tasks) \<Longrightarrow> task \<in> set tasks \<Longrightarrow> map_of d1 (snd task) = tts (fst task)"
proof -
  from assms have "\<exists>d'. gather tts (arrange order tasks) d = Inr d'" by blast
  then show "\<forall>task \<in> set tasks. tts (fst task) \<noteq> None"
    by (simp add: gather_Inr_iff set_arrange)
  show "map_of d1 f = map_of d f" if "f \<notin> snd ` set tasks"
    using gather_other [OF assms] that by (simp add: set_arrange)
  show "map_of d1 (snd task) = tts (fst task)"
    if di: "distinct (map snd tasks)" and t: "task \<in> set tasks"
  proof -
    from di have "distinct (arrange order (map snd tasks))" by (rule distinct_arrange)
    then have "distinct (map snd (arrange order tasks))" by (simp add: map_arrange)
    moreover from t have "task \<in> set (arrange order tasks)" by (simp add: set_arrange)
    ultimately show ?thesis using gather_written [OF assms] by blast
  qed
qed

lemma run_facts:
  assumes "main e d = Inr r"
  shows "\<exists>texts cm st d1.
      extract_all_texts (vocab_json e) (sentences_json e) = Inr texts
    \<and> load_central_manifest (central_manifest_file e) = Inr cm
    \<and> plan e d texts cm = Inr st
    \<and> gather (tts_save e) (arrange (completion_order e) (to_generate st)) (audio_dir st) = Inr d1
    \<and> final_manifest r = manifest st \<and> generated r = to_generate st
    \<and> n_texts r = length texts \<and> n_copied r = copied st
    \<and> final_dir r = filter (\<lambda>p. \<not> is_orphan (manifest st) (fst p)) (write_manifest (manifest st) d1)
    \<and> n_removed r = length (filter (is_orphan (manifest st)) (map fst (write_manifest (manifest st) d1)))
    \<and> (\<forall>f. map_of (final_dir r) f =
          (if is_orphan (manifest st) f then None
           else if f = mpath then Some (ManifestDoc (manifest st))
           else map_of d1 f))"
proof -
  from main_Inr [OF assms] obtain texts cm st d1 where
    x: "extract_all_texts (vocab_json e) (sentences_json e) = Inr texts"
    and l: "load_central_manifest (central_manifest_file e) = Inr cm"
    and p: "plan e d texts cm = Inr st"
    and g: "gather (tts_save e) (arrange (completion_order e) (to_generate st)) (audio_dir st)
         = Inr d1"
    and r: "r = \<lparr>final_dir = fst (clean_orphans (manifest st) (write_manifest (manifest st) d1)),
            final_manifest = manifest st,
            generated = to_generate st,
            n_texts = length texts,
            n_copied = copied st,
            n_removed = snd (clean_orphans (manifest st) (write_manifest (manifest st) d1))\<rparr>"
    by blast
  from r have fd: "final_dir r = fst (clean_orphans (manifest st) (write_manifest (manifest st) d1))"
    by simp
  have m: "map_of (final_dir r) f =
          (if is_orphan (manifest st) f then None
           else if f = mpath then Some (ManifestDoc (manifest st))
           else map_of d1 f)" for f
    unfolding fd by (simp add: clean_orphans_map_of write_manifest_map_of)
  from r have "final_manifest r = manifest st" "generated r = to_generate st"
    "n_texts r = length texts" "n_copied r = copied st"
    "final_dir r = filter (\<lambda>p. \<not> is_orphan (manifest st) (fst p)) (write_manifest (manifest st) d1)"
    "n_removed r = length (filter (is_orphan (manifest st)) (map fst (write_manifest (manifest st) d1)))"
    by (simp_all add: clean_orphans_filter)
  with x l p g m show ?thesis by blast
qed

lemma extract_distinct:
  "extract_all_texts vocab sents = Inr texts \<Longrightarrow> distinct texts \<and> sorted texts \<and> [] \<notin> set texts"
  using extract_all_texts_sorted [of vocab sents texts] by auto

text \<open>The file of the text at position \<open>i\<close>, after a run that reaches the end.\<close>

lemma final_file:
  assumes run: "main e d = Inr r"
    and x: "extract_all_texts (vocab_json e) (sentences_json e) = Inr texts"
    and l: "load_central_manifest (central_manifest_file e) = Inr cm"
    and i: "i < length texts"
  shows "(texts ! i, entry (md5_hexdigest e) (i, texts ! i)) \<in> set (final_manifest r)"
    and "endswith (entry (md5_hexdigest e) (i, texts ! i)) ''.mp3''"
    and "map_of (final_dir r) (entry (md5_hexdigest e) (i, texts ! i)) =
           (case cached cm (central_audio e) (texts ! i) of
              Some (File audio) \<Rightarrow> Some audio
            | _ \<Rightarrow> tts_save e (texts ! i))"
    and "map_of (final_dir r) (entry (md5_hexdigest e) (i, texts ! i)) \<noteq> None"
    and "cached cm (central_audio e) (texts ! i) = None \<longleftrightarrow>
           (texts ! i, entry (md5_hexdigest e) (i, texts ! i)) \<in> set (generated r)"
    and "cached cm (central_audio e) (texts ! i) = None \<longleftrightarrow> texts ! i \<in> fst ` set (generated r)"
proof -
  let ?h = "md5_hexdigest e" and ?ca = "central_audio e"
  let ?f = "entry (md5_hexdigest e) (i, texts ! i)"
  from run_facts [OF run] x l obtain st d1 where
    p: "plan e d texts cm = Inr st"
    and g: "gather (tts_save e) (arrange (completion_order e) (to_generate st)) (audio_dir st)
         = Inr d1"
    and fm: "final_manifest r = manifest st" and gen: "generated r = to_generate st"
    and m: "\<And>f. map_of (final_dir r) f =
          (if is_orphan (manifest st) f then None
           else if f = mpath then Some (ManifestDoc (manifest st))
           else map_of d1 f)"
    by auto
  from extract_distinct [OF x] have di: "distinct texts" by simp
  from i have mem: "(i, texts ! i) \<in> set (enumerate 0 texts)" by (rule enumerate_nth)
  have man: "manifest st = map (\<lambda>it. (snd it, entry ?h it)) (enumerate 0 texts)"
    using p di by (rule plan_manifest)
  from mem have "(\<lambda>it. (snd it, entry ?h it)) (i, texts ! i) \<in> set (manifest st)"
    unfolding man set_map by (rule imageI)
  then have inm: "(texts ! i, ?f) \<in> set (manifest st)" by simp
  then show "(texts ! i, ?f) \<in> set (final_manifest r)" by (simp add: fm)
  from i have ok: "encodable (texts ! i)" "cached cm ?ca (texts ! i) \<noteq> Some Uncopyable"
    using plan_ok [OF p] by simp_all
  from ok(1) show mp3: "endswith ?f ''.mp3''" using entry_mp3 [of "(i, texts ! i)"] by simp
  from ok(1) have nm: "?f \<noteq> mpath" using entry_not_mpath [of "(i, texts ! i)"] by simp
  from inm have "?f \<in> set (map snd (manifest st))" by (metis in_set_zipE zip_map_fst_snd)
  then have no: "\<not> is_orphan (manifest st) ?f" by (simp add: is_orphan_def)
  from m [of ?f] no nm have fin: "map_of (final_dir r) ?f = map_of d1 ?f" by simp
  have tg: "to_generate st = map (\<lambda>it. (snd it, entry ?h it))
      (filter (\<lambda>it. cached cm ?ca (snd it) = None) (enumerate 0 texts))"
    using p by (rule plan_to_generate)
  have val: "map_of d1 ?f =
      (case cached cm ?ca (texts ! i) of Some (File audio) \<Rightarrow> Some audio
       | _ \<Rightarrow> tts_save e (texts ! i))"
    and ne: "map_of d1 ?f \<noteq> None"
    and task: "cached cm ?ca (texts ! i) = None \<longleftrightarrow> (texts ! i, ?f) \<in> set (to_generate st)"
    and task': "cached cm ?ca (texts ! i) = None \<longleftrightarrow> texts ! i \<in> fst ` set (to_generate st)"
  proof -
    show t: "cached cm ?ca (texts ! i) = None \<longleftrightarrow> (texts ! i, ?f) \<in> set (to_generate st)"
    proof
      assume "cached cm ?ca (texts ! i) = None"
      with mem have "(i, texts ! i) \<in> set (filter (\<lambda>it. cached cm ?ca (snd it) = None)
          (enumerate 0 texts))" by simp
      then have "(\<lambda>it. (snd it, entry ?h it)) (i, texts ! i) \<in> set (to_generate st)"
        unfolding tg set_map by (rule imageI)
      then show "(texts ! i, ?f) \<in> set (to_generate st)" by simp
    next
      assume "(texts ! i, ?f) \<in> set (to_generate st)"
      then have "?f \<in> snd ` set (to_generate st)" by (metis imageI snd_conv)
      with plan_copy_not_task(2) [OF p i] show "cached cm ?ca (texts ! i) = None" by blast
    qed
    show "cached cm ?ca (texts ! i) = None \<longleftrightarrow> texts ! i \<in> fst ` set (to_generate st)"
    proof
      assume "cached cm ?ca (texts ! i) = None"
      with t have "(texts ! i, ?f) \<in> set (to_generate st)" by simp
      then show "texts ! i \<in> fst ` set (to_generate st)" by (metis imageI fst_conv)
    next
      assume "texts ! i \<in> fst ` set (to_generate st)"
      then show "cached cm ?ca (texts ! i) = None" by (auto simp: tg)
    qed
    show "map_of d1 ?f =
      (case cached cm ?ca (texts ! i) of Some (File audio) \<Rightarrow> Some audio
       | _ \<Rightarrow> tts_save e (texts ! i))"
      and "map_of d1 ?f \<noteq> None"
    proof -
      consider (miss) "cached cm ?ca (texts ! i) = None"
        | (hit) audio where "cached cm ?ca (texts ! i) = Some (File audio)"
        using ok(2) by (cases "cached cm ?ca (texts ! i)") (auto intro: node.exhaust)
      then have "map_of d1 ?f =
          (case cached cm ?ca (texts ! i) of Some (File audio) \<Rightarrow> Some audio
           | _ \<Rightarrow> tts_save e (texts ! i)) \<and> map_of d1 ?f \<noteq> None"
      proof cases
        case miss
        with t have in_t: "(texts ! i, ?f) \<in> set (to_generate st)" by simp
        from gather_arranged(3) [OF g plan_tasks(2) [OF p] in_t]
        have "map_of d1 ?f = tts_save e (texts ! i)" by simp
        moreover from gather_arranged(1) [OF g] in_t have "tts_save e (texts ! i) \<noteq> None"
          by auto
        ultimately show ?thesis using miss by simp
      next
        case hit
        then have "cached cm ?ca (texts ! i) \<noteq> None" by simp
        from plan_copy_not_task(2) [OF p i this]
        have "?f \<notin> snd ` set (to_generate st)" .
        from gather_arranged(2) [OF g this] plan_copy [OF p i hit]
        show ?thesis using hit by simp
      qed
      then show "map_of d1 ?f =
          (case cached cm ?ca (texts ! i) of Some (File audio) \<Rightarrow> Some audio
           | _ \<Rightarrow> tts_save e (texts ! i))"
        and "map_of d1 ?f \<noteq> None" by blast+
    qed
  qed
  from val fin show "map_of (final_dir r) ?f =
           (case cached cm ?ca (texts ! i) of
              Some (File audio) \<Rightarrow> Some audio
            | _ \<Rightarrow> tts_save e (texts ! i))" by simp
  from ne fin show "map_of (final_dir r) ?f \<noteq> None" by simp
  from task gen show "cached cm ?ca (texts ! i) = None \<longleftrightarrow> (texts ! i, ?f) \<in> set (generated r)"
    by simp
  from task' gen show "cached cm ?ca (texts ! i) = None \<longleftrightarrow> texts ! i \<in> fst ` set (generated r)"
    by simp
qed


subsection \<open>Facts about runs that fail, and runs that cannot\<close>

lemma plan_Inl:
  "plan e d texts cm = Inl err \<Longrightarrow> err = UnicodeEncodeError \<or> err = CopyError"
  unfolding plan_def using main_loop_Inl by blast

lemma plan_task_miss:
  "plan e d texts cm = Inr st \<Longrightarrow> t \<in> fst ` set (to_generate st) \<Longrightarrow>
   t \<in> set texts \<and> cached cm (central_audio e) t = None"
proof -
  assume p: "plan e d texts cm = Inr st" and t: "t \<in> fst ` set (to_generate st)"
  from t obtain it where "it \<in> set (enumerate 0 texts)"
    and "cached cm (central_audio e) (snd it) = None" and "t = snd it"
    unfolding plan_to_generate [OF p] by auto
  then show ?thesis using enumerate_snd by blast
qed

lemma main_SynthesisError:
  assumes "extract_all_texts (vocab_json e) (sentences_json e) = Inr texts"
    and "load_central_manifest (central_manifest_file e) = Inr cm"
    and "main e d = Inl (SynthesisError t)"
  shows "\<exists>st. plan e d texts cm = Inr st \<and> t \<in> fst ` set (to_generate st)
           \<and> tts_save e t = None"
proof (cases "plan e d texts cm")
  case (Inl err)
  with assms have "err = SynthesisError t" by (simp add: main_plan)
  with plan_Inl [OF Inl] show ?thesis by simp
next
  case (Inr st)
  from main_Inl [OF assms(1,2) Inr assms(3)]
  have "gather (tts_save e) (arrange (completion_order e) (to_generate st)) (audio_dir st)
      = Inl (SynthesisError t)" .
  from gather_Inl [OF this] obtain task where
    "task \<in> set (to_generate st)" "tts_save e (fst task) = None" "t = fst task"
    by (auto simp: set_arrange)
  then have "t \<in> fst ` set (to_generate st) \<and> tts_save e t = None" by auto
  with Inr show ?thesis by simp
qed

lemma run_after_plan:
  assumes "extract_all_texts (vocab_json e) (sentences_json e) = Inr texts"
    and "load_central_manifest (central_manifest_file e) = Inr cm"
    and "plan e d texts cm = Inr st"
  shows "(\<exists>r. main e d = Inr r) \<longleftrightarrow>
           (\<forall>task \<in> set (to_generate st). tts_save e (fst task) \<noteq> None)"
    and "main e d = Inl err \<Longrightarrow>
           \<exists>task \<in> set (to_generate st). tts_save e (fst task) = None
              \<and> err = SynthesisError (fst task)"
proof -
  let ?g = "gather (tts_save e) (arrange (completion_order e) (to_generate st)) (audio_dir st)"
  have m: "main e d = (case ?g of Inl err \<Rightarrow> Inl err | Inr d1 \<Rightarrow>
      Inr \<lparr>final_dir = fst (clean_orphans (manifest st) (write_manifest (manifest st) d1)),
           final_manifest = manifest st, generated = to_generate st,
           n_texts = length texts, n_copied = copied st,
           n_removed = snd (clean_orphans (manifest st) (write_manifest (manifest st) d1))\<rparr>)"
    by (simp add: main_plan [OF assms(1,2)] assms(3))
  have "(\<exists>r. main e d = Inr r) \<longleftrightarrow> (\<exists>d1. ?g = Inr d1)"
    unfolding m by (cases ?g) simp_all
  also have "\<dots> \<longleftrightarrow> (\<forall>task \<in> set (to_generate st). tts_save e (fst task) \<noteq> None)"
    by (simp add: gather_Inr_iff set_arrange)
  finally show "(\<exists>r. main e d = Inr r) \<longleftrightarrow>
           (\<forall>task \<in> set (to_generate st). tts_save e (fst task) \<noteq> None)" .
  show "\<exists>task \<in> set (to_generate st). tts_save e (fst task) = None
              \<and> err = SynthesisError (fst task)" if "main e d = Inl err"
  proof -
    from main_Inl [OF assms that] have "?g = Inl err" .
    from gather_Inl [OF this] show ?thesis by (simp add: set_arrange)
  qed
qed

lemma run_succeeds:
  assumes "extract_all_texts (vocab_json e) (sentences_json e) = Inr texts"
    and "load_central_manifest (central_manifest_file e) = Inr cm"
    and "\<forall>t \<in> set texts. encodable t \<and> cached cm (central_audio e) t \<noteq> Some Uncopyable
           \<and> (cached cm (central_audio e) t = None \<longrightarrow> tts_save e t \<noteq> None)"
  shows "\<exists>r. main e d = Inr r"
proof -
  from assms(3) have "\<exists>st. plan e d texts cm = Inr st" by (simp add: plan_Inr_iff)
  then obtain st where p: "plan e d texts cm = Inr st" by blast
  have "\<forall>task \<in> set (to_generate st). tts_save e (fst task) \<noteq> None"
  proof
    fix task assume "task \<in> set (to_generate st)"
    then have "fst task \<in> fst ` set (to_generate st)" by (rule imageI)
    from plan_task_miss [OF p this] assms(3) show "tts_save e (fst task) \<noteq> None" by blast
  qed
  then show ?thesis by (simp add: run_after_plan(1) [OF assms(1,2) p])
qed




subsection \<open>The store after a run\<close>

lemma run_no_orphans:
  assumes "main e d = Inr r"
  shows "artifacts (final_dir r) = snd ` set (final_manifest r)
       \<and> map_of (final_dir r) mpath = Some (ManifestDoc (final_manifest r))
       \<and> (\<forall>f. endswith f ''.mp3'' \<and> f \<notin> snd ` set (final_manifest r) \<longrightarrow>
              f \<notin> fst ` set (final_dir r))
       \<and> (\<forall>t f. (t, f) \<in> set (final_manifest r) \<longrightarrow>
              endswith f ''.mp3'' \<and> map_of (final_dir r) f \<noteq> None)"
proof -
  from run_facts [OF assms] obtain texts cm st d1 where
    x: "extract_all_texts (vocab_json e) (sentences_json e) = Inr texts"
    and l: "load_central_manifest (central_manifest_file e) = Inr cm"
    and p: "plan e d texts cm = Inr st"
    and fm: "final_manifest r = manifest st"
    and m: "\<And>f. map_of (final_dir r) f =
          (if is_orphan (manifest st) f then None
           else if f = mpath then Some (ManifestDoc (manifest st))
           else map_of d1 f)"
    by auto
  from extract_distinct [OF x] have di: "distinct texts" by simp
  have man: "manifest st =
      map (\<lambda>it. (snd it, entry (md5_hexdigest e) it)) (enumerate 0 texts)"
    using p di by (rule plan_manifest)
  have doc: "map_of (final_dir r) mpath = Some (ManifestDoc (final_manifest r))"
    using m [of mpath] mpath_not_mp3 by (simp add: is_orphan_def fm)
  have gone: "f \<notin> fst ` set (final_dir r)"
    if "endswith f ''.mp3'' \<and> f \<notin> snd ` set (final_manifest r)" for f
  proof -
    from that have "is_orphan (manifest st) f" by (simp add: is_orphan_def fm)
    with m [of f] have "map_of (final_dir r) f = None" by simp
    then show ?thesis by (simp add: in_keys_iff)
  qed
  have backed: "endswith f ''.mp3'' \<and> map_of (final_dir r) f \<noteq> None"
    if "(t, f) \<in> set (final_manifest r)" for t f
  proof -
    from that obtain it where it: "it \<in> set (enumerate 0 texts)"
      and t: "t = snd it" and f: "f = entry (md5_hexdigest e) it"
      by (auto simp: fm man)
    from it have i: "fst it < length texts" and s: "snd it = texts ! fst it"
      by (simp_all add: in_set_enumerate_eq)
    from s have "it = (fst it, texts ! fst it)" by (simp add: prod_eq_iff)
    with final_file(2,4) [OF assms x l i] f show ?thesis by simp
  qed
  have "artifacts (final_dir r) = snd ` set (final_manifest r)"
  proof (rule set_eqI)
    fix f
    show "f \<in> artifacts (final_dir r) \<longleftrightarrow> f \<in> snd ` set (final_manifest r)"
    proof
      assume "f \<in> artifacts (final_dir r)"
      then have "f \<in> fst ` set (final_dir r)" and "endswith f ''.mp3''"
        by (simp_all add: artifacts_def)
      with gone [of f] show "f \<in> snd ` set (final_manifest r)" by blast
    next
      assume "f \<in> snd ` set (final_manifest r)"
      then obtain t where "(t, f) \<in> set (final_manifest r)" by auto
      from backed [OF this] show "f \<in> artifacts (final_dir r)"
        by (simp add: artifacts_def in_keys_iff)
    qed
  qed
  with doc gone backed show ?thesis by blast
qed

text \<open>
  C1. After a run that reaches the end, the names of the audio files in the audio
  directory are exactly the values of the manifest the run has written to
  \<^verbatim>\<open>manifest.json\<close>: every audio file on disk is a value of the manifest (the sweep has
  removed every file ending in \<^verbatim>\<open>.mp3\<close> whose name is not one), and every value of the
  manifest is the name of an audio file that exists. A run reaches the end when every
  required text can be encoded, no central path is something that cannot be copied, and
  every synthesis of a text that is not copied succeeds.
\<close>

theorem no_orphans:
  "(\<forall>r. main e d = Inr r \<longrightarrow>
        artifacts (final_dir r) = snd ` set (final_manifest r)
      \<and> map_of (final_dir r) mpath = Some (ManifestDoc (final_manifest r))
      \<and> (\<forall>f. endswith f ''.mp3'' \<and> f \<notin> snd ` set (final_manifest r) \<longrightarrow>
             f \<notin> fst ` set (final_dir r))
      \<and> (\<forall>t f. (t, f) \<in> set (final_manifest r) \<longrightarrow>
             endswith f ''.mp3'' \<and> map_of (final_dir r) f \<noteq> None))
   \<and> (\<forall>texts cm. extract_all_texts (vocab_json e) (sentences_json e) = Inr texts
        \<and> load_central_manifest (central_manifest_file e) = Inr cm
        \<and> (\<forall>t \<in> set texts. encodable t \<and> cached cm (central_audio e) t \<noteq> Some Uncopyable
              \<and> (cached cm (central_audio e) t = None \<longrightarrow> tts_save e t \<noteq> None)) \<longrightarrow>
        (\<exists>r. main e d = Inr r))"
proof -
  have A: "\<forall>r. main e d = Inr r \<longrightarrow>
        artifacts (final_dir r) = snd ` set (final_manifest r)
      \<and> map_of (final_dir r) mpath = Some (ManifestDoc (final_manifest r))
      \<and> (\<forall>f. endswith f ''.mp3'' \<and> f \<notin> snd ` set (final_manifest r) \<longrightarrow>
             f \<notin> fst ` set (final_dir r))
      \<and> (\<forall>t f. (t, f) \<in> set (final_manifest r) \<longrightarrow>
             endswith f ''.mp3'' \<and> map_of (final_dir r) f \<noteq> None)"
    by (intro allI impI) (rule run_no_orphans)
  have B: "\<forall>texts cm. extract_all_texts (vocab_json e) (sentences_json e) = Inr texts
        \<and> load_central_manifest (central_manifest_file e) = Inr cm
        \<and> (\<forall>t \<in> set texts. encodable t \<and> cached cm (central_audio e) t \<noteq> Some Uncopyable
              \<and> (cached cm (central_audio e) t = None \<longrightarrow> tts_save e t \<noteq> None)) \<longrightarrow>
        (\<exists>r. main e d = Inr r)"
  proof (intro allI impI)
    fix texts cm
    assume h: "extract_all_texts (vocab_json e) (sentences_json e) = Inr texts
        \<and> load_central_manifest (central_manifest_file e) = Inr cm
        \<and> (\<forall>t \<in> set texts. encodable t \<and> cached cm (central_audio e) t \<noteq> Some Uncopyable
              \<and> (cached cm (central_audio e) t = None \<longrightarrow> tts_save e t \<noteq> None))"
    from run_succeeds [OF h [THEN conjunct1] h [THEN conjunct2, THEN conjunct1]
        h [THEN conjunct2, THEN conjunct2]]
    show "\<exists>r. main e d = Inr r" .
  qed
  show ?thesis by (rule conjI [OF A B])
qed

theorem no_orphans_witness:
  "main env_scn dir_scn = Inr result_scn
   \<and> artifacts (final_dir result_scn) = {''0000_137a01.mp3'', ''0001_ef1c51.mp3'', ''0002_09b9db.mp3''}
   \<and> map_of (final_dir result_scn) ''manifest.json'' = Some (ManifestDoc manifest_scn)
   \<and> ''old.mp3'' \<notin> fst ` set (final_dir result_scn)
   \<and> map_of (final_dir result_scn) ''0002_09b9db.mp3'' \<noteq> None"
proof -
  note T = no_orphans [of env_scn dir_scn, THEN conjunct1, rule_format, OF main_scn]
  have fm: "final_manifest result_scn = manifest_scn" by (simp add: result_scn_def)
  have v: "snd ` set manifest_scn = {''0000_137a01.mp3'', ''0001_ef1c51.mp3'', ''0002_09b9db.mp3''}"
    by (simp add: manifest_scn_def)
  from T have "artifacts (final_dir result_scn) = snd ` set (final_manifest result_scn)"
    by (rule conjunct1)
  with fm v have a: "artifacts (final_dir result_scn) =
      {''0000_137a01.mp3'', ''0001_ef1c51.mp3'', ''0002_09b9db.mp3''}" by (simp only:)
  from T have "map_of (final_dir result_scn) mpath = Some (ManifestDoc (final_manifest result_scn))"
    by blast
  then have b: "map_of (final_dir result_scn) ''manifest.json'' = Some (ManifestDoc manifest_scn)"
    by (simp only: fm mpath_def)
  have "endswith ''old.mp3'' ''.mp3'' \<and> ''old.mp3'' \<notin> snd ` set (final_manifest result_scn)"
    by (simp add: fm v endswith_def)
  with T have c: "''old.mp3'' \<notin> fst ` set (final_dir result_scn)" by blast
  have "(hakgyo, ''0002_09b9db.mp3'') \<in> set (final_manifest result_scn)"
    by (simp add: fm manifest_scn_def)
  with T have g: "map_of (final_dir result_scn) ''0002_09b9db.mp3'' \<noteq> None" by blast
  from main_scn a b c g show ?thesis by blast
qed



subsection \<open>The manifest write\<close>

text \<open>
  C9 (amended). The manifest is written by opening \<^verbatim>\<open>manifest.json\<close> for writing, which
  truncates a prior manifest, and writing the document after that. The write is not
  atomic: while it goes on, the path holds an empty file (neither the prior manifest
  nor the new one, unless the prior file was empty already). When the write is over,
  the path holds the whole new manifest; no other file is changed at any moment.
\<close>

theorem manifest_write_truncates:
  "map_of (hd (write_manifest_states m d)) mpath = Some (Bytes [])
   \<and> last (write_manifest_states m d) = write_manifest m d
   \<and> map_of (write_manifest m d) mpath = Some (ManifestDoc m)
   \<and> (\<forall>s \<in> set (write_manifest_states m d). \<forall>f. f \<noteq> mpath \<longrightarrow> map_of s f = map_of d f)
   \<and> (manifest_write_atomic m d \<longleftrightarrow> map_of d mpath = Some (Bytes []))"
proof -
  have a: "map_of (hd (write_manifest_states m d)) mpath = Some (Bytes [])"
    by (simp add: write_manifest_states_def update_conv')
  have b: "last (write_manifest_states m d) = write_manifest m d"
    by (simp add: write_manifest_def)
  have c: "map_of (write_manifest m d) mpath = Some (ManifestDoc m)"
    by (simp add: write_manifest_map_of)
  have f: "\<forall>s \<in> set (write_manifest_states m d). \<forall>f. f \<noteq> mpath \<longrightarrow> map_of s f = map_of d f"
    by (simp add: write_manifest_states_def update_conv')
  have g: "manifest_write_atomic m d \<longleftrightarrow> map_of d mpath = Some (Bytes [])"
    by (auto simp: manifest_write_atomic_def write_manifest_states_def update_conv')
  from a b c f g show ?thesis by blast
qed

theorem manifest_write_truncates_witness:
  "map_of (hd (write_manifest_states manifest_scn dir_scn)) ''manifest.json'' = Some (Bytes [])
   \<and> map_of (write_manifest manifest_scn dir_scn) ''manifest.json'' = Some (ManifestDoc manifest_scn)
   \<and> map_of (write_manifest manifest_scn dir_scn) ''notes.txt'' = Some (Bytes [7])"
proof -
  note T = manifest_write_truncates [of manifest_scn dir_scn]
  from T have a: "map_of (hd (write_manifest_states manifest_scn dir_scn)) ''manifest.json''
      = Some (Bytes [])" by (simp only: mpath_def)
  from T have b: "map_of (write_manifest manifest_scn dir_scn) ''manifest.json''
      = Some (ManifestDoc manifest_scn)" by (simp only: mpath_def)
  have "write_manifest manifest_scn dir_scn \<in> set (write_manifest_states manifest_scn dir_scn)"
    by (simp add: write_manifest_def write_manifest_states_def)
  moreover have "''notes.txt'' \<noteq> mpath" by (simp add: mpath_def)
  ultimately have "map_of (write_manifest manifest_scn dir_scn) ''notes.txt'' =
      map_of dir_scn ''notes.txt''" using T by blast
  then have c: "map_of (write_manifest manifest_scn dir_scn) ''notes.txt'' = Some (Bytes [7])"
    by (simp add: dir_scn_def)
  from a b c show ?thesis by blast
qed

text \<open>
  The claim as stated (no reader ever sees anything but the prior or the new manifest)
  fails: the first state of the write shows an empty file where the prior manifest was.
\<close>

theorem manifest_write_not_atomic:
  "\<not> manifest_write_atomic manifest_scn dir_scn
   \<and> map_of dir_scn ''manifest.json'' = Some (ManifestDoc [])
   \<and> map_of (hd (write_manifest_states manifest_scn dir_scn)) ''manifest.json'' = Some (Bytes [])"
  by (simp add: manifest_write_atomic_def write_manifest_states_def dir_scn_def mpath_def
      manifest_scn_def)

subsection \<open>The required texts and the manifest\<close>

text \<open>
  C7. The required texts are the members of the collected set but the empty string,
  each once, in ascending order (Python's order on strings is the lexicographic order
  on code points). After a run that reaches the end the manifest has one entry for
  each required text, in that order, the text at position \<open>i\<close> with the name
  \<^verbatim>\<open>repo_filename\<close> gives it at index \<open>i\<close>, and this manifest is what
  \<^verbatim>\<open>manifest.json\<close> holds. The manifest depends on the two input documents (and the
  hash function) only: two runs on the same documents write the same manifest,
  whatever the audio directory, the central store, the synthesis results and the
  order of completion are. A run reaches the end when every required text can be
  encoded, no central path is something that cannot be copied, and every synthesis of
  a text that is not copied succeeds.
\<close>

theorem texts_sorted_manifest_order:
  assumes "extract_all_texts (vocab_json e) (sentences_json e) = Inr texts"
  shows "sorted texts \<and> distinct texts \<and> [] \<notin> set texts
       \<and> (\<exists>data s. vocab_json e = Some data \<and> collect_texts data (sentences_json e) = Inr s
             \<and> set texts = s - {[]})
       \<and> (\<forall>r. main e d = Inr r \<longrightarrow>
              map fst (final_manifest r) = texts
            \<and> final_manifest r =
                map (\<lambda>it. (snd it, entry (md5_hexdigest e) it)) (enumerate 0 texts)
            \<and> (\<forall>i. i < length texts \<longrightarrow>
                  repo_filename (md5_hexdigest e) (texts ! i) (int i)
                    = Inr (snd (final_manifest r ! i)))
            \<and> map_of (final_dir r) mpath = Some (ManifestDoc (final_manifest r))
            \<and> n_texts r = length texts)
       \<and> (\<forall>e' d' r r'. vocab_json e' = vocab_json e \<and> sentences_json e' = sentences_json e
              \<and> md5_hexdigest e' = md5_hexdigest e
              \<and> main e d = Inr r \<and> main e' d' = Inr r' \<longrightarrow>
              final_manifest r' = final_manifest r)
       \<and> (\<forall>cm. load_central_manifest (central_manifest_file e) = Inr cm
              \<and> (\<forall>t \<in> set texts. encodable t
                    \<and> cached cm (central_audio e) t \<noteq> Some Uncopyable
                    \<and> (cached cm (central_audio e) t = None \<longrightarrow> tts_save e t \<noteq> None)) \<longrightarrow>
              (\<exists>r. main e d = Inr r))"
proof -
  from extract_all_texts_sorted [OF assms] obtain data s where
    src: "vocab_json e = Some data \<and> collect_texts data (sentences_json e) = Inr s
        \<and> set texts = s - {[]}"
    and so: "sorted texts" and di: "distinct texts"
    by blast
  from src have ne: "[] \<notin> set texts" by simp
  have man: "final_manifest r =
      map (\<lambda>it. (snd it, entry (md5_hexdigest e') it)) (enumerate 0 texts)
      \<and> n_texts r = length texts
      \<and> map_of (final_dir r) mpath = Some (ManifestDoc (final_manifest r))
      \<and> (\<forall>t \<in> set texts. encodable t)"
    if run: "main e' d' = Inr r"
      and x: "extract_all_texts (vocab_json e') (sentences_json e') = Inr texts"
    for e' d' r
  proof -
    from run_facts [OF run] x obtain cm st d1 where
      p: "plan e' d' texts cm = Inr st" and fm: "final_manifest r = manifest st"
      and n: "n_texts r = length texts"
      and m: "\<And>f. map_of (final_dir r) f =
          (if is_orphan (manifest st) f then None
           else if f = mpath then Some (ManifestDoc (manifest st))
           else map_of d1 f)"
      by auto
    have "map_of (final_dir r) mpath = Some (ManifestDoc (final_manifest r))"
      using m [of mpath] mpath_not_mp3 by (simp add: is_orphan_def fm)
    moreover have "\<forall>t \<in> set texts. encodable t" using plan_ok [OF p] by blast
    ultimately show ?thesis using plan_manifest [OF p di] fm n by simp
  qed
  have one: "map fst (final_manifest r) = texts
            \<and> final_manifest r =
                map (\<lambda>it. (snd it, entry (md5_hexdigest e) it)) (enumerate 0 texts)
            \<and> (\<forall>i. i < length texts \<longrightarrow>
                  repo_filename (md5_hexdigest e) (texts ! i) (int i)
                    = Inr (snd (final_manifest r ! i)))
            \<and> map_of (final_dir r) mpath = Some (ManifestDoc (final_manifest r))
            \<and> n_texts r = length texts"
    if run: "main e d = Inr r" for r
  proof -
    note M = man [OF run assms]
    from M have fm: "final_manifest r =
        map (\<lambda>it. (snd it, entry (md5_hexdigest e) it)) (enumerate 0 texts)" by simp
    have "map fst (final_manifest r) = map snd (enumerate 0 texts)"
      unfolding fm by (simp add: comp_def)
    then have keys: "map fst (final_manifest r) = texts" by simp
    have names: "repo_filename (md5_hexdigest e) (texts ! i) (int i)
        = Inr (snd (final_manifest r ! i))" if i: "i < length texts" for i
    proof -
      from i have "final_manifest r ! i = (texts ! i, entry (md5_hexdigest e) (i, texts ! i))"
        unfolding fm by (simp add: nth_enumerate_eq)
      moreover from M i have "encodable (snd (i, texts ! i))" by simp
      from entry_encodable [OF this]
      have "repo_filename (md5_hexdigest e) (texts ! i) (int i)
          = Inr (entry (md5_hexdigest e) (i, texts ! i))" by simp
      ultimately show ?thesis by simp
    qed
    from names have names': "\<forall>i. i < length texts \<longrightarrow>
        repo_filename (md5_hexdigest e) (texts ! i) (int i) = Inr (snd (final_manifest r ! i))"
      by simp
    from M have doc: "map_of (final_dir r) mpath = Some (ManifestDoc (final_manifest r))"
      and n: "n_texts r = length texts" by simp_all
    show ?thesis
      by (rule conjI [OF keys conjI [OF fm conjI [OF names' conjI [OF doc n]]]])
  qed
  have same: "final_manifest r' = final_manifest r"
    if "vocab_json e' = vocab_json e \<and> sentences_json e' = sentences_json e
        \<and> md5_hexdigest e' = md5_hexdigest e \<and> main e d = Inr r \<and> main e' d' = Inr r'"
    for e' d' r r'
  proof -
    from that assms have x': "extract_all_texts (vocab_json e') (sentences_json e') = Inr texts"
      by simp
    from that have "main e' d' = Inr r'" by simp
    from man [OF this x'] that have "final_manifest r' =
        map (\<lambda>it. (snd it, entry (md5_hexdigest e) it)) (enumerate 0 texts)" by simp
    moreover from that have "main e d = Inr r" by simp
    from man [OF this assms] have "final_manifest r =
        map (\<lambda>it. (snd it, entry (md5_hexdigest e) it)) (enumerate 0 texts)" by simp
    ultimately show ?thesis by simp
  qed
  from src have C: "\<exists>data s. vocab_json e = Some data
      \<and> collect_texts data (sentences_json e) = Inr s \<and> set texts = s - {[]}"
    by (intro exI)
  from one have A: "\<forall>r. main e d = Inr r \<longrightarrow>
              map fst (final_manifest r) = texts
            \<and> final_manifest r =
                map (\<lambda>it. (snd it, entry (md5_hexdigest e) it)) (enumerate 0 texts)
            \<and> (\<forall>i. i < length texts \<longrightarrow>
                  repo_filename (md5_hexdigest e) (texts ! i) (int i)
                    = Inr (snd (final_manifest r ! i)))
            \<and> map_of (final_dir r) mpath = Some (ManifestDoc (final_manifest r))
            \<and> n_texts r = length texts"
    by (intro allI impI)
  from same have B: "\<forall>e' d' r r'. vocab_json e' = vocab_json e
              \<and> sentences_json e' = sentences_json e
              \<and> md5_hexdigest e' = md5_hexdigest e
              \<and> main e d = Inr r \<and> main e' d' = Inr r' \<longrightarrow>
              final_manifest r' = final_manifest r"
    by (intro allI impI)
  have S: "\<forall>cm. load_central_manifest (central_manifest_file e) = Inr cm
              \<and> (\<forall>t \<in> set texts. encodable t
                    \<and> cached cm (central_audio e) t \<noteq> Some Uncopyable
                    \<and> (cached cm (central_audio e) t = None \<longrightarrow> tts_save e t \<noteq> None)) \<longrightarrow>
              (\<exists>r. main e d = Inr r)"
  proof (intro allI impI)
    fix cm
    assume h: "load_central_manifest (central_manifest_file e) = Inr cm
              \<and> (\<forall>t \<in> set texts. encodable t
                    \<and> cached cm (central_audio e) t \<noteq> Some Uncopyable
                    \<and> (cached cm (central_audio e) t = None \<longrightarrow> tts_save e t \<noteq> None))"
    from run_succeeds [OF assms h [THEN conjunct1] h [THEN conjunct2]]
    show "\<exists>r. main e d = Inr r" .
  qed
  show ?thesis
    by (rule conjI [OF so conjI [OF di conjI [OF ne conjI [OF C conjI [OF A conjI [OF B S]]]]]])
qed

theorem texts_sorted_manifest_order_witness:
  "extract_all_texts (vocab_json env_scn) (sentences_json env_scn)
     = Inr [saranghaeyo, annyeong, hakgyo]
   \<and> sorted [saranghaeyo, annyeong, hakgyo] \<and> distinct [saranghaeyo, annyeong, hakgyo]
   \<and> main env_scn dir_scn = Inr result_scn
   \<and> map fst (final_manifest result_scn) = [saranghaeyo, annyeong, hakgyo]
   \<and> repo_filename md5_sample hakgyo 2 = Inr (snd (final_manifest result_scn ! 2))
   \<and> main (env_scn\<lparr>central_manifest_file := Missing\<rparr>) dir_scn = Inr result_missing_scn
   \<and> final_manifest result_missing_scn = final_manifest result_scn"
proof -
  let ?texts = "[saranghaeyo, annyeong, hakgyo]"
  let ?e' = "env_scn\<lparr>central_manifest_file := Missing\<rparr>"
  have x: "extract_all_texts (vocab_json env_scn) (sentences_json env_scn) = Inr ?texts"
    by (simp only: env_scn_sel extract_scn)
  note T = texts_sorted_manifest_order [OF x, of dir_scn]
  note a = T [THEN conjunct1]
  note b = T [THEN conjunct2, THEN conjunct1]
  note R = T [THEN conjunct2, THEN conjunct2, THEN conjunct2, THEN conjunct2, THEN conjunct1,
      rule_format, OF main_scn]
  note c = R [THEN conjunct1]
  have "(2::nat) < length ?texts" by simp
  from R [THEN conjunct2, THEN conjunct2, THEN conjunct1, rule_format, OF this]
  have "repo_filename (md5_hexdigest env_scn) (?texts ! 2) (int 2)
      = Inr (snd (final_manifest result_scn ! 2))" .
  then have g: "repo_filename md5_sample hakgyo 2 = Inr (snd (final_manifest result_scn ! 2))"
    by (simp add: env_scn_sel)
  have same: "vocab_json ?e' = vocab_json env_scn \<and> sentences_json ?e' = sentences_json env_scn
      \<and> md5_hexdigest ?e' = md5_hexdigest env_scn
      \<and> main env_scn dir_scn = Inr result_scn \<and> main ?e' dir_scn = Inr result_missing_scn"
    using main_scn main_missing_scn by simp
  note h = T [THEN conjunct2, THEN conjunct2, THEN conjunct2, THEN conjunct2, THEN conjunct2,
      THEN conjunct1, rule_format, OF same]
  show ?thesis
    by (rule conjI [OF x conjI [OF a conjI [OF b conjI [OF main_scn conjI [OF c conjI [OF g
        conjI [OF main_missing_scn h]]]]]]])
qed

subsection \<open>Cache hits and misses\<close>

lemma cached_hit:
  "cm t = Some cf \<Longrightarrow> ca cf = Some (File audio) \<Longrightarrow> cached cm ca t = Some (File audio)"
  by (simp add: cached_def)

lemma cached_miss:
  "cm t = None \<or> (\<exists>cf. cm t = Some cf \<and> ca cf = None) \<Longrightarrow> cached cm ca t = None"
  by (auto simp: cached_def)

text \<open>
  C2. A required text that the central manifest names a file for, where that file
  exists in the central store, is copied and never synthesised: the loop does not put
  it on the list of texts to synthesise (the synthesis calls of a run are calls on the
  texts of this list), it copies the file under the text's name, and a run that
  reaches the end has the copy under that name and the name in the manifest. No run
  ends with a synthesis failure of such a text. The iteration of the loop for the text
  does not raise when the text can be encoded, and a run reaches the end when every
  required text can be encoded, no central path is something that cannot be copied, and
  every synthesis of a text that is not copied succeeds.
\<close>

theorem cache_precedence:
  assumes "extract_all_texts (vocab_json e) (sentences_json e) = Inr texts"
    and "load_central_manifest (central_manifest_file e) = Inr cm"
    and "i < length texts"
    and "cm (texts ! i) = Some cf"
    and "central_audio e cf = Some (File audio)"
  shows "(\<forall>st. plan e d texts cm = Inr st \<longrightarrow>
            texts ! i \<notin> fst ` set (to_generate st)
          \<and> map_of (audio_dir st) (entry (md5_hexdigest e) (i, texts ! i)) = Some audio)
       \<and> (\<forall>r. main e d = Inr r \<longrightarrow>
            texts ! i \<notin> fst ` set (generated r)
          \<and> map_of (final_dir r) (entry (md5_hexdigest e) (i, texts ! i)) = Some audio
          \<and> (texts ! i, entry (md5_hexdigest e) (i, texts ! i)) \<in> set (final_manifest r))
       \<and> main e d \<noteq> Inl (SynthesisError (texts ! i))
       \<and> (encodable (texts ! i) \<longrightarrow>
            (\<forall>st. \<exists>st'. loop_body (md5_hexdigest e) cm (central_audio e) (i, texts ! i) st = Inr st'
                \<and> to_generate st' = to_generate st
                \<and> audio_dir st' =
                    AList.update (entry (md5_hexdigest e) (i, texts ! i)) audio (audio_dir st)
                \<and> copied st' = copied st + 1))
       \<and> ((\<forall>t \<in> set texts. encodable t \<and> cached cm (central_audio e) t \<noteq> Some Uncopyable
              \<and> (cached cm (central_audio e) t = None \<longrightarrow> tts_save e t \<noteq> None)) \<longrightarrow>
            (\<exists>r. main e d = Inr r))"
proof -
  have hit: "cached cm (central_audio e) (texts ! i) = Some (File audio)"
    using assms(4,5) by (rule cached_hit)
  have A: "\<forall>st. plan e d texts cm = Inr st \<longrightarrow>
            texts ! i \<notin> fst ` set (to_generate st)
          \<and> map_of (audio_dir st) (entry (md5_hexdigest e) (i, texts ! i)) = Some audio"
  proof (intro allI impI)
    fix st assume p: "plan e d texts cm = Inr st"
    have "texts ! i \<notin> fst ` set (to_generate st)"
    proof
      assume "texts ! i \<in> fst ` set (to_generate st)"
      from plan_task_miss [OF p this] hit show False by simp
    qed
    moreover note plan_copy [OF p assms(3) hit]
    ultimately show "texts ! i \<notin> fst ` set (to_generate st)
          \<and> map_of (audio_dir st) (entry (md5_hexdigest e) (i, texts ! i)) = Some audio"
      by (rule conjI)
  qed
  have B: "\<forall>r. main e d = Inr r \<longrightarrow>
            texts ! i \<notin> fst ` set (generated r)
          \<and> map_of (final_dir r) (entry (md5_hexdigest e) (i, texts ! i)) = Some audio
          \<and> (texts ! i, entry (md5_hexdigest e) (i, texts ! i)) \<in> set (final_manifest r)"
  proof (intro allI impI)
    fix r assume run: "main e d = Inr r"
    note F = final_file [OF run assms(1,2,3)]
    from F(6) hit have a: "texts ! i \<notin> fst ` set (generated r)" by simp
    from F(3) hit have b: "map_of (final_dir r) (entry (md5_hexdigest e) (i, texts ! i))
        = Some audio" by simp
    show "texts ! i \<notin> fst ` set (generated r)
          \<and> map_of (final_dir r) (entry (md5_hexdigest e) (i, texts ! i)) = Some audio
          \<and> (texts ! i, entry (md5_hexdigest e) (i, texts ! i)) \<in> set (final_manifest r)"
      by (rule conjI [OF a conjI [OF b F(1)]])
  qed
  have C: "main e d \<noteq> Inl (SynthesisError (texts ! i))"
  proof
    assume "main e d = Inl (SynthesisError (texts ! i))"
    from main_SynthesisError [OF assms(1,2) this] obtain st where
      p: "plan e d texts cm = Inr st" and t: "texts ! i \<in> fst ` set (to_generate st)"
      by blast
    from plan_task_miss [OF p t] hit show False by simp
  qed
  have L: "encodable (texts ! i) \<longrightarrow>
            (\<forall>st. \<exists>st'. loop_body (md5_hexdigest e) cm (central_audio e) (i, texts ! i) st = Inr st'
                \<and> to_generate st' = to_generate st
                \<and> audio_dir st' =
                    AList.update (entry (md5_hexdigest e) (i, texts ! i)) audio (audio_dir st)
                \<and> copied st' = copied st + 1)"
  proof (intro impI allI)
    fix st assume enc: "encodable (texts ! i)"
    with hit loop_body_cases [of "md5_hexdigest e" cm "central_audio e" "(i, texts ! i)" st]
    obtain st' where b: "loop_body (md5_hexdigest e) cm (central_audio e) (i, texts ! i) st
        = Inr st'" by auto
    from loop_body_Inr(4,5,6) [OF b] hit
    have "to_generate st' = to_generate st"
      "audio_dir st' = AList.update (entry (md5_hexdigest e) (i, texts ! i)) audio (audio_dir st)"
      "copied st' = copied st + 1" by simp_all
    with b show "\<exists>st'. loop_body (md5_hexdigest e) cm (central_audio e) (i, texts ! i) st = Inr st'
                \<and> to_generate st' = to_generate st
                \<and> audio_dir st' =
                    AList.update (entry (md5_hexdigest e) (i, texts ! i)) audio (audio_dir st)
                \<and> copied st' = copied st + 1"
      by (intro exI conjI)
  qed
  have S: "(\<forall>t \<in> set texts. encodable t \<and> cached cm (central_audio e) t \<noteq> Some Uncopyable
              \<and> (cached cm (central_audio e) t = None \<longrightarrow> tts_save e t \<noteq> None)) \<longrightarrow>
            (\<exists>r. main e d = Inr r)"
    using run_succeeds [OF assms(1,2)] by (intro impI)
  show ?thesis by (rule conjI [OF A conjI [OF B conjI [OF C conjI [OF L S]]]])
qed

theorem cache_precedence_witness:
  "main env_scn dir_scn = Inr result_scn
   \<and> annyeong \<notin> fst ` set (generated result_scn)
   \<and> map_of (final_dir result_scn) ''0001_ef1c51.mp3'' = Some (Bytes [1])
   \<and> (annyeong, ''0001_ef1c51.mp3'') \<in> set (final_manifest result_scn)
   \<and> main (env_scn\<lparr>tts_save := tts_failing\<rparr>) dir_scn \<noteq> Inl (SynthesisError annyeong)"
proof -
  let ?texts = "[saranghaeyo, annyeong, hakgyo]"
  let ?e' = "env_scn\<lparr>tts_save := tts_failing\<rparr>"
  have x: "extract_all_texts (vocab_json env_scn) (sentences_json env_scn) = Inr ?texts"
    by (simp only: env_scn_sel extract_scn)
  have l: "load_central_manifest (central_manifest_file env_scn) = Inr central_manifest_scn"
    by (simp add: env_scn_sel load_central_manifest_def)
  have i: "(1::nat) < length ?texts" by simp
  have c: "central_manifest_scn (?texts ! 1) = Some ''a1.mp3''"
    using texts_scn_distinct by (simp add: central_manifest_scn_def)
  have f: "central_audio env_scn ''a1.mp3'' = Some (File (Bytes [1]))"
    by (simp add: env_scn_sel central_audio_scn_def)
  have n: "entry (md5_hexdigest env_scn) (1, ?texts ! 1) = ''0001_ef1c51.mp3''"
    using entries_scn(2) by (simp add: env_scn_sel)
  have t: "?texts ! 1 = annyeong" by simp
  note T = cache_precedence [OF x l i c f, of dir_scn]
  note R = T [THEN conjunct2, THEN conjunct1, rule_format, OF main_scn]
  from R [THEN conjunct1] t have a: "annyeong \<notin> fst ` set (generated result_scn)"
    by simp
  from R [THEN conjunct2, THEN conjunct1] n
  have b: "map_of (final_dir result_scn) ''0001_ef1c51.mp3'' = Some (Bytes [1])"
    by simp
  from R [THEN conjunct2, THEN conjunct2] n t
  have g: "(annyeong, ''0001_ef1c51.mp3'') \<in> set (final_manifest result_scn)"
    by simp
  have x': "extract_all_texts (vocab_json ?e') (sentences_json ?e') = Inr ?texts"
    using x by simp
  have l': "load_central_manifest (central_manifest_file ?e') = Inr central_manifest_scn"
    using l by simp
  have f': "central_audio ?e' ''a1.mp3'' = Some (File (Bytes [1]))"
    using f by simp
  from cache_precedence [OF x' l' i c f', of dir_scn, THEN conjunct2, THEN conjunct2,
      THEN conjunct1] t
  have h: "main ?e' dir_scn \<noteq> Inl (SynthesisError annyeong)" by simp
  show ?thesis
    by (rule conjI [OF main_scn conjI [OF a conjI [OF b conjI [OF g h]]]])
qed

text \<open>
  C3. A required text is a cache miss when the central manifest has no entry for it,
  and also when it has one and the file it names does not exist in the central store
  (the test \<^verbatim>\<open>os.path.exists\<close>, made after the lookup). A miss is not an error: the
  iteration of the loop for the text does not raise for it, copies nothing and puts the
  text on the list of texts to synthesise; a run that reaches the end has synthesised
  the text and stored the result under the text's name. A run in which every text can be
  encoded, no central path is something that cannot be copied, and every synthesis of a
  text that misses succeeds, reaches the end.
\<close>

theorem stale_reference_is_miss:
  assumes "extract_all_texts (vocab_json e) (sentences_json e) = Inr texts"
    and "load_central_manifest (central_manifest_file e) = Inr cm"
    and "i < length texts"
    and "cm (texts ! i) = None \<or> (\<exists>cf. cm (texts ! i) = Some cf \<and> central_audio e cf = None)"
  shows "cached cm (central_audio e) (texts ! i) = None
       \<and> (encodable (texts ! i) \<longrightarrow>
            (\<forall>st. \<exists>st'. loop_body (md5_hexdigest e) cm (central_audio e) (i, texts ! i) st = Inr st'
                \<and> to_generate st' =
                    to_generate st @ [(texts ! i, entry (md5_hexdigest e) (i, texts ! i))]
                \<and> audio_dir st' = audio_dir st \<and> copied st' = copied st))
       \<and> (\<forall>st. plan e d texts cm = Inr st \<longrightarrow>
            (texts ! i, entry (md5_hexdigest e) (i, texts ! i)) \<in> set (to_generate st))
       \<and> (\<forall>r. main e d = Inr r \<longrightarrow>
            (texts ! i, entry (md5_hexdigest e) (i, texts ! i)) \<in> set (generated r)
          \<and> tts_save e (texts ! i) \<noteq> None
          \<and> map_of (final_dir r) (entry (md5_hexdigest e) (i, texts ! i)) = tts_save e (texts ! i))
       \<and> ((\<forall>t \<in> set texts. encodable t \<and> cached cm (central_audio e) t \<noteq> Some Uncopyable
              \<and> (cached cm (central_audio e) t = None \<longrightarrow> tts_save e t \<noteq> None)) \<longrightarrow>
            (\<exists>r. main e d = Inr r))"
proof -
  let ?h = "md5_hexdigest e" and ?ca = "central_audio e"
  let ?f = "entry (md5_hexdigest e) (i, texts ! i)"
  have miss: "cached cm ?ca (texts ! i) = None"
    using assms(4) by (rule cached_miss)
  have A: "encodable (texts ! i) \<longrightarrow>
            (\<forall>st. \<exists>st'. loop_body ?h cm ?ca (i, texts ! i) st = Inr st'
                \<and> to_generate st' = to_generate st @ [(texts ! i, ?f)]
                \<and> audio_dir st' = audio_dir st \<and> copied st' = copied st)"
  proof (intro impI allI)
    fix st assume enc: "encodable (texts ! i)"
    with miss loop_body_cases [of ?h cm ?ca "(i, texts ! i)" st]
    obtain st' where b: "loop_body ?h cm ?ca (i, texts ! i) st = Inr st'" by auto
    from loop_body_Inr(4,5,6) [OF b] miss
    have "to_generate st' = to_generate st @ [(texts ! i, ?f)]"
      "audio_dir st' = audio_dir st" "copied st' = copied st" by simp_all
    with b show "\<exists>st'. loop_body ?h cm ?ca (i, texts ! i) st = Inr st'
                \<and> to_generate st' = to_generate st @ [(texts ! i, ?f)]
                \<and> audio_dir st' = audio_dir st \<and> copied st' = copied st"
      by (intro exI conjI)
  qed
  have B: "\<forall>st. plan e d texts cm = Inr st \<longrightarrow> (texts ! i, ?f) \<in> set (to_generate st)"
  proof (intro allI impI)
    fix st assume p: "plan e d texts cm = Inr st"
    from assms(3) have "(i, texts ! i) \<in> set (enumerate 0 texts)" by (rule enumerate_nth)
    with miss have "(i, texts ! i) \<in> set (filter (\<lambda>it. cached cm ?ca (snd it) = None)
        (enumerate 0 texts))" by simp
    then have "(\<lambda>it. (snd it, entry ?h it)) (i, texts ! i) \<in> set (to_generate st)"
      unfolding plan_to_generate [OF p] set_map by (rule imageI)
    then show "(texts ! i, ?f) \<in> set (to_generate st)" by simp
  qed
  have C: "\<forall>r. main e d = Inr r \<longrightarrow>
            (texts ! i, ?f) \<in> set (generated r)
          \<and> tts_save e (texts ! i) \<noteq> None
          \<and> map_of (final_dir r) ?f = tts_save e (texts ! i)"
  proof (intro allI impI)
    fix r assume run: "main e d = Inr r"
    note F = final_file [OF run assms(1,2,3)]
    from F(5) miss have a: "(texts ! i, ?f) \<in> set (generated r)" by simp
    from F(3) miss have b: "map_of (final_dir r) ?f = tts_save e (texts ! i)" by simp
    with F(4) have c: "tts_save e (texts ! i) \<noteq> None" by simp
    show "(texts ! i, ?f) \<in> set (generated r)
          \<and> tts_save e (texts ! i) \<noteq> None
          \<and> map_of (final_dir r) ?f = tts_save e (texts ! i)"
      by (rule conjI [OF a conjI [OF c b]])
  qed
  have D: "(\<forall>t \<in> set texts. encodable t \<and> cached cm ?ca t \<noteq> Some Uncopyable
              \<and> (cached cm ?ca t = None \<longrightarrow> tts_save e t \<noteq> None)) \<longrightarrow>
            (\<exists>r. main e d = Inr r)"
    using run_succeeds [OF assms(1,2)] by (intro impI)
  show ?thesis by (rule conjI [OF miss conjI [OF A conjI [OF B conjI [OF C D]]]])
qed

theorem stale_reference_is_miss_witness:
  "central_manifest_scn hakgyo = Some ''gone.mp3'' \<and> central_audio_scn ''gone.mp3'' = None
   \<and> cached central_manifest_scn central_audio_scn hakgyo = None
   \<and> main env_scn dir_scn = Inr result_scn
   \<and> (hakgyo, ''0002_09b9db.mp3'') \<in> set (generated result_scn)
   \<and> map_of (final_dir result_scn) ''0002_09b9db.mp3'' = Some (Bytes hakgyo)"
proof -
  let ?texts = "[saranghaeyo, annyeong, hakgyo]"
  have x: "extract_all_texts (vocab_json env_scn) (sentences_json env_scn) = Inr ?texts"
    by (simp only: env_scn_sel extract_scn)
  have l: "load_central_manifest (central_manifest_file env_scn) = Inr central_manifest_scn"
    by (simp add: env_scn_sel load_central_manifest_def)
  have i: "(2::nat) < length ?texts" by simp
  have c: "central_manifest_scn hakgyo = Some ''gone.mp3''"
    by (simp add: central_manifest_scn_def)
  have g: "central_audio_scn ''gone.mp3'' = None"
    by (simp add: central_audio_scn_def)
  have t: "?texts ! 2 = hakgyo" by simp
  from c g have s: "central_manifest_scn (?texts ! 2) = None
      \<or> (\<exists>cf. central_manifest_scn (?texts ! 2) = Some cf \<and> central_audio env_scn cf = None)"
    by (simp add: env_scn_sel)
  have n: "entry (md5_hexdigest env_scn) (2, ?texts ! 2) = ''0002_09b9db.mp3''"
    using entries_scn(3) by (simp add: env_scn_sel)
  note T = stale_reference_is_miss [OF x l i s, of dir_scn]
  from T [THEN conjunct1] t have m: "cached central_manifest_scn central_audio_scn hakgyo = None"
    by (simp only: env_scn_sel)
  note R = T [THEN conjunct2, THEN conjunct2, THEN conjunct2, THEN conjunct1, rule_format,
      OF main_scn]
  from R [THEN conjunct1] n t have a: "(hakgyo, ''0002_09b9db.mp3'') \<in> set (generated result_scn)"
    by simp
  from R [THEN conjunct2, THEN conjunct2] n t
  have "map_of (final_dir result_scn) ''0002_09b9db.mp3'' = tts_save env_scn hakgyo"
    by simp
  then have b: "map_of (final_dir result_scn) ''0002_09b9db.mp3'' = Some (Bytes hakgyo)"
    by (simp only: env_scn_sel tts_echo_def)
  show ?thesis
    by (rule conjI [OF c conjI [OF g conjI [OF m conjI [OF main_scn conjI [OF a b]]]]])
qed

subsection \<open>Failures\<close>







end
